theory Spec2Isabelle
  imports Complex_Main "HOL-Library.Log_Nat" "HOL-Library.Char_ord" "HOL-Library.List_Lexorder"
begin

section \<open>Generator Specs: catalog, load ledger and report save flow\<close>

text \<open>
  The development follows \<^verbatim>\<open>Maven_Generator_Specs.py\<close>. A Python \<^verbatim>\<open>str\<close> is a
  \<^typ>\<open>string\<close> in which every \<^typ>\<open>char\<close> stands for one code point below 256
  (Latin-1), so that \<^const>\<open>length\<close> counts what Python's \<^verbatim>\<open>len\<close> counts; text with
  code points from 256 on is outside the model. Python's \<^verbatim>\<open>int\<close> is \<^typ>\<open>int\<close>,
  \<^verbatim>\<open>None\<close> is \<^const>\<open>None\<close>.

  Of the user interface the development keeps the state that the handlers read and
  write. The widgets, and the attribute \<^verbatim>\<open>current_tab\<close>, which the program assigns and
  never reads, are outside the state. The two handlers of the load ledger build the load
  view anew, which raises on numbers that are too long or too large; they return, besides
  the state they leave, the exception that escapes them, if any. Tk reports such an
  exception and the application goes on from the state the handler left.
\<close>

subsection \<open>Data\<close>

record WiringSpecs =
  voltage :: string
  amperage :: string
  wire_gauge :: string
  conduit_size :: string
  breaker_size :: string
  ground_wire :: string
  neutral_wire :: string
  receptacle :: string
  spec_notes :: string

definition mkWiringSpecs ::
  "string \<Rightarrow> string \<Rightarrow> string \<Rightarrow> string \<Rightarrow> string \<Rightarrow> string \<Rightarrow> string \<Rightarrow> string \<Rightarrow> string
    \<Rightarrow> WiringSpecs" where
  \<comment> \<open>the positional constructor of the dataclass, arguments in field order\<close>
  "mkWiringSpecs v a w c b g n r t =
     \<lparr>voltage = v, amperage = a, wire_gauge = w, conduit_size = c, breaker_size = b,
      ground_wire = g, neutral_wire = n, receptacle = r, spec_notes = t\<rparr>"

definition SINGLE_PHASE_SPECS :: "int \<rightharpoonup> WiringSpecs" where
  "SINGLE_PHASE_SPECS = map_of
    [(30, mkWiringSpecs ''240V'' ''125A'' ''1/0 AWG Copper'' ''1.5\" (1-1/2 inch)'' ''150A''
            ''6 AWG Copper'' ''1/0 AWG'' ''Hardwired dedicated circuit''
            ''Requires isolated ground. Dedicated circuit mandatory per NFPA 99. Must be on emergency power system per healthcare facility code.''),
     (32, mkWiringSpecs ''240V'' ''133A'' ''1/0 AWG Copper'' ''1.5\" (1-1/2 inch)'' ''150A''
            ''6 AWG Copper'' ''1/0 AWG'' ''Hardwired dedicated circuit''
            ''Isolated ground required. Room requires RF shielding. Emergency power backup mandatory.''),
     (40, mkWiringSpecs ''240V'' ''167A'' ''2/0 AWG Copper'' ''2\" (2 inch)'' ''200A''
            ''4 AWG Copper'' ''2/0 AWG'' ''Hardwired dedicated circuit''
            ''High-power imaging. Requires 200A+ service. Isolated ground and RF shielding mandatory.''),
     (50, mkWiringSpecs ''240V'' ''208A'' ''4/0 AWG Copper'' ''2.5\" (2-1/2 inch)'' ''250A''
            ''4 AWG Copper'' ''4/0 AWG'' ''Hardwired dedicated circuit''
            ''CT/MRI class system. Requires dedicated transformer. Harmonic filtering recommended.''),
     (60, mkWiringSpecs ''240V'' ''250A'' ''250 MCM Copper'' ''3\" (3 inch)'' ''300A''
            ''2 AWG Copper'' ''250 MCM'' ''Hardwired dedicated circuit''
            ''High-field MRI or advanced CT. Requires dedicated service entrance. Power quality monitoring essential.'')]"

definition THREE_PHASE_SPECS :: "int \<rightharpoonup> WiringSpecs" where
  "THREE_PHASE_SPECS = map_of
    [(30, mkWiringSpecs ''208V/480V'' ''83A @ 208V / 36A @ 480V''
            ''4 AWG Copper (208V) / 8 AWG Copper (480V)'' ''1.25\" (1-1/4 inch)''
            ''100A (208V) / 50A (480V)'' ''8 AWG Copper'' ''4 AWG (if required)''
            ''Hardwired 4-wire connection''
            ''Three-phase medical imaging. Isolated ground required. Phase balance critical for image quality.''),
     (32, mkWiringSpecs ''208V/480V'' ''89A @ 208V / 39A @ 480V''
            ''3 AWG Copper (208V) / 8 AWG Copper (480V)'' ''1.25\" (1-1/4 inch)''
            ''100A (208V) / 50A (480V)'' ''8 AWG Copper'' ''3 AWG (if required)''
            ''Hardwired 4-wire connection''
            (''Advanced imaging equipment. Voltage regulation '' @ [char_of (177::nat)]
              @ ''5% required. RF shielding mandatory.'')),
     (40, mkWiringSpecs ''208V/480V'' ''111A @ 208V / 48A @ 480V''
            ''1 AWG Copper (208V) / 6 AWG Copper (480V)'' ''1.5\" (1-1/2 inch)''
            ''125A (208V) / 60A (480V)'' ''6 AWG Copper'' ''1 AWG (if required)''
            ''Hardwired 4-wire connection''
            ''CT scanner class equipment. Power quality monitoring required. THD must be <5%.''),
     (50, mkWiringSpecs ''208V/480V'' ''139A @ 208V / 60A @ 480V''
            ''1/0 AWG Copper (208V) / 4 AWG Copper (480V)'' ''2\" (2 inch)''
            ''175A (208V) / 80A (480V)'' ''6 AWG Copper'' ''1/0 AWG (if required)''
            ''Hardwired 4-wire connection''
            ''High-power CT/MRI system. Dedicated transformer recommended. Active harmonic filter may be required.''),
     (60, mkWiringSpecs ''208V/480V'' ''167A @ 208V / 72A @ 480V''
            ''2/0 AWG Copper (208V) / 3 AWG Copper (480V)'' ''2\" (2 inch)''
            ''200A (208V) / 100A (480V)'' ''4 AWG Copper'' ''2/0 AWG (if required)''
            ''Hardwired 4-wire connection''
            ''Premium imaging suite. Dedicated electrical room required. K-rated transformer mandatory.'')]"

definition POWER_RATINGS :: "int list" where
  "POWER_RATINGS = [30, 32, 40, 50, 60]"

definition dict_get :: "('k \<rightharpoonup> 'v) \<Rightarrow> 'k option \<Rightarrow> 'v option" where
  \<comment> \<open>\<^verbatim>\<open>d.get(key)\<close> where the key may be \<^verbatim>\<open>None\<close>, which no table has\<close>
  "dict_get d key = (case key of None \<Rightarrow> None | Some k \<Rightarrow> d k)"

definition lookup_specs :: "string option \<Rightarrow> int option \<Rightarrow> WiringSpecs option" where
  \<comment> \<open>the two \<^verbatim>\<open>dict.get\<close> calls of \<^verbatim>\<open>_update_specs\<close>: any phase other than
      \<^verbatim>\<open>"single"\<close> reads the three-phase table, a missing key gives \<^verbatim>\<open>None\<close>\<close>
  "lookup_specs phase rating =
     (if phase = Some ''single'' then dict_get SINGLE_PHASE_SPECS rating
      else dict_get THREE_PHASE_SPECS rating)"

subsection \<open>Text and integers of Python\<close>

datatype py_error = ValueError | ZeroDivisionError | OverflowError

definition int_max_str_digits :: nat where
  \<comment> \<open>\<^verbatim>\<open>sys.get_int_max_str_digits()\<close>, which the program leaves at its default: an
      \<^verbatim>\<open>int\<close> is not converted from or to decimal text with more digits than this\<close>
  "int_max_str_digits = 4300"

definition ord :: "char \<Rightarrow> nat" where
  "ord c = of_char c"

definition is_decimal :: "char \<Rightarrow> bool" where
  \<comment> \<open>the digits \<^verbatim>\<open>int()\<close> accepts among the code points below 256\<close>
  "is_decimal c = (48 \<le> ord c \<and> ord c \<le> 57)"

definition digit_value :: "char \<Rightarrow> int" where
  "digit_value c = int (ord c) - 48"

definition int_space :: "char \<Rightarrow> bool" where
  \<comment> \<open>what \<^verbatim>\<open>int()\<close> skips around a literal: tab, LF, VT, FF, CR and space, and the
      non-ASCII white space NEL and NBSP; the separators 28 to 31 are not skipped\<close>
  "int_space c = (ord c \<in> {9, 10, 11, 12, 13, 32, 133, 160})"

definition isspace :: "char \<Rightarrow> bool" where
  \<comment> \<open>\<^verbatim>\<open>str.isspace\<close> on one code point below 256\<close>
  "isspace c = (ord c \<in> {9, 10, 11, 12, 13, 28, 29, 30, 31, 32, 133, 160})"

definition isalnum :: "char \<Rightarrow> bool" where
  \<comment> \<open>\<^verbatim>\<open>str.isalnum\<close> on one code point below 256\<close>
  "isalnum c =
     (let n = ord c in
        (48 \<le> n \<and> n \<le> 57) \<or> (65 \<le> n \<and> n \<le> 90) \<or> (97 \<le> n \<and> n \<le> 122) \<or>
        n \<in> {170, 178, 179, 181, 185, 186, 188, 189, 190} \<or>
        (192 \<le> n \<and> n \<le> 214) \<or> (216 \<le> n \<and> n \<le> 246) \<or> (248 \<le> n \<and> n \<le> 255))"

definition strip_with :: "(char \<Rightarrow> bool) \<Rightarrow> string \<Rightarrow> string" where
  "strip_with ws s = rev (dropWhile ws (rev (dropWhile ws s)))"

definition strip :: "string \<Rightarrow> string" where
  \<comment> \<open>\<^verbatim>\<open>str.strip()\<close> without arguments\<close>
  "strip s = strip_with isspace s"

fun parse_digits :: "int \<Rightarrow> string \<Rightarrow> int option" where
  \<comment> \<open>the rest of a decimal literal after a digit: digits, each optionally preceded by
      one underscore\<close>
  "parse_digits acc [] = Some acc"
| "parse_digits acc (c # cs) =
     (if is_decimal c then parse_digits (10 * acc + digit_value c) cs
      else if c = CHR ''_'' then
        (case cs of
           [] \<Rightarrow> None
         | d # ds \<Rightarrow> if is_decimal d then parse_digits (10 * acc + digit_value d) ds else None)
      else None)"

definition parse_unsigned :: "string \<Rightarrow> int option" where
  \<comment> \<open>a literal without sign; one that is well formed is refused all the same when it
      has more digits, underscores not counted, than the limit\<close>
  "parse_unsigned s =
     (case s of
        [] \<Rightarrow> None
      | c # cs \<Rightarrow>
          if is_decimal c then
            (case parse_digits (digit_value c) cs of
               None \<Rightarrow> None
             | Some n \<Rightarrow>
                 if int_max_str_digits < length (filter is_decimal s) then None else Some n)
          else None)"

definition py_int :: "string \<Rightarrow> int option" where
  \<comment> \<open>\<^verbatim>\<open>int(s)\<close> for a string in base 10; \<^const>\<open>None\<close> is \<^verbatim>\<open>ValueError\<close>, raised for
      text that is not a literal and for a literal of more than 4300 digits\<close>
  "py_int s =
     (let t = strip_with int_space s in
      if t \<noteq> [] \<and> hd t = CHR ''-'' then map_option uminus (parse_unsigned (tl t))
      else if t \<noteq> [] \<and> hd t = CHR ''+'' then parse_unsigned (tl t)
      else parse_unsigned t)"

fun nat_digits :: "nat \<Rightarrow> string" where
  "nat_digits n =
     (if n < 10 then [char_of (48 + n)] else nat_digits (n div 10) @ [char_of (48 + n mod 10)])"

declare nat_digits.simps [simp del]

definition py_str :: "int \<Rightarrow> string" where
  \<comment> \<open>\<^verbatim>\<open>str(n)\<close>, also what an f-string writes for an \<^verbatim>\<open>int\<close>\<close>
  "py_str n = (if n < 0 then CHR ''-'' # nat_digits (nat (- n)) else nat_digits (nat n))"

definition fmt_int :: "int \<Rightarrow> py_error + string" where
  \<comment> \<open>the f-string field \<^verbatim>\<open>{n}\<close> of an \<^verbatim>\<open>int\<close>: \<^verbatim>\<open>ValueError\<close> when \<open>n\<close> has more
      decimal digits than the limit\<close>
  "fmt_int n =
     (if int_max_str_digits < length (nat_digits (nat \<bar>n\<bar>)) then Inl ValueError
      else Inr (py_str n))"

fun group3 :: "string \<Rightarrow> string" where
  \<comment> \<open>a comma after every third digit, on the digits from the last to the first\<close>
  "group3 (a # b # c # d # ds) = a # b # c # CHR '','' # group3 (d # ds)"
| "group3 ds = ds"

definition fmt_thousands :: "int \<Rightarrow> py_error + string" where
  \<comment> \<open>the f-string field \<^verbatim>\<open>{n:,}\<close> of an \<^verbatim>\<open>int\<close>: \<^verbatim>\<open>ValueError\<close> when \<open>n\<close> has more
      decimal digits than the limit\<close>
  "fmt_thousands n =
     (let ds = nat_digits (nat \<bar>n\<bar>) in
      if int_max_str_digits < length ds then Inl ValueError
      else Inr ((if n < 0 then ''-'' else []) @ rev (group3 (rev ds))))"

subsection \<open>Application state\<close>

record load =
  id' :: int
  name :: string
  watts :: int
  quantity :: int

definition DEFAULT_LOADS :: "load list" where
  "DEFAULT_LOADS =
     [\<lparr>id' = 1, name = ''X-Ray Tube'', watts = 15000, quantity = 1\<rparr>,
      \<lparr>id' = 2, name = ''Image Processor'', watts = 3000, quantity = 1\<rparr>,
      \<lparr>id' = 3, name = ''Room HVAC'', watts = 2000, quantity = 1\<rparr>]"

record project_info =
  project_name :: string
  project_address :: string
  contractor :: string
  electrician :: string
  license_number :: string

record SavedReport =
  sr_id :: string
  sr_project_name :: string
  sr_phase_type :: "string option"
  sr_power_rating :: "int option"
  sr_status :: string
  sr_created_at :: string
  sr_updated_at :: string
  sr_project_address :: string
  sr_contractor :: string
  sr_electrician :: string
  sr_license_number :: string
  sr_custom_notes :: string
  sr_checklist_data :: "(string \<times> bool) list"
  sr_load_data :: "load list"
  sr_pdf_path :: string

record app_state =
  selected_phase :: "string option"
  selected_power :: "int option"
  current_specs :: "WiringSpecs option"
  loads :: "load list"
  load_id :: int
  info :: project_info
  checklist_vars :: "(string \<times> bool) list"
  db :: "SavedReport list"

definition init_state :: app_state where
  \<comment> \<open>\<^verbatim>\<open>GeneratorSpecsApp.__init__\<close>, on a record store that holds no report yet\<close>
  "init_state =
     \<lparr>selected_phase = None, selected_power = None, current_specs = None,
      loads = DEFAULT_LOADS, load_id = 4,
      info = \<lparr>project_name = [], project_address = [], contractor = [], electrician = [],
               license_number = []\<rparr>,
      checklist_vars = [], db = []\<rparr>"

subsection \<open>Selection and catalog lookup\<close>

definition update_specs :: "app_state \<Rightarrow> app_state" where
  "update_specs st =
     st\<lparr>current_specs := lookup_specs (selected_phase st) (selected_power st)\<rparr>"

definition select_phase :: "app_state \<Rightarrow> string \<Rightarrow> app_state" where
  "select_phase st phase =
     (let st1 = st\<lparr>selected_phase := Some phase\<rparr> in
      if selected_power st1 \<noteq> None \<and> selected_power st1 \<noteq> Some 0 then update_specs st1 else st1)"

definition select_power :: "app_state \<Rightarrow> int \<Rightarrow> app_state" where
  "select_power st rating =
     (let st1 = st\<lparr>selected_power := Some rating\<rparr> in
      if selected_phase st1 \<noteq> None \<and> selected_phase st1 \<noteq> Some [] then update_specs st1 else st1)"

definition reset_selection :: "app_state \<Rightarrow> app_state" where
  "reset_selection st = st\<lparr>selected_phase := None, selected_power := None, current_specs := None\<rparr>"

subsection \<open>Floats of Python\<close>

text \<open>
  A finite \<^verbatim>\<open>float\<close> is the rational number it denotes. \<open>round_b64\<close> rounds a rational to
  binary64, to nearest with ties to even, with 53 bits above the smallest exponent and
  fewer below; the range is checked where the result is used, since true division raises
  on a result out of range and multiplication gives an infinity.
\<close>

datatype pyfloat = Finite rat | PosInf | NegInf

definition round_half_even :: "rat \<Rightarrow> int" where
  "round_half_even t =
     (let f = \<lfloor>t\<rfloor>; d = t - of_int f
      in if d < 1 / 2 then f else if 1 / 2 < d then f + 1 else if even f then f else f + 1)"

definition ilog2 :: "rat \<Rightarrow> int" where
  \<comment> \<open>the binary exponent of a number other than 0: the \<open>k\<close> with \<open>2^k \<le> |x| < 2^(k+1)\<close>\<close>
  "ilog2 x =
     (let (a, b) = quotient_of \<bar>x\<bar>; k = bitlen a - bitlen b
      in if power_int 2 k \<le> \<bar>x\<bar> then k else k - 1)"

definition round_b64 :: "rat \<Rightarrow> rat" where
  "round_b64 x =
     (if x = 0 then 0
      else let e = max (ilog2 x - 52) (- 1074)
           in of_int (round_half_even (x / power_int 2 e)) * power_int 2 e)"

definition float_limit :: rat where
  \<comment> \<open>the least power of two above every finite binary64 value\<close>
  "float_limit = 2 ^ 1024"

definition int_truediv :: "int \<Rightarrow> int \<Rightarrow> py_error + rat" where
  \<comment> \<open>\<^verbatim>\<open>a / b\<close> on two \<^verbatim>\<open>int\<close>: the correctly rounded quotient, or an exception\<close>
  "int_truediv a b =
     (if b = 0 then Inl ZeroDivisionError
      else let r = round_b64 (of_int a / of_int b)
           in if float_limit \<le> \<bar>r\<bar> then Inl OverflowError else Inr r)"

definition float_mul :: "rat \<Rightarrow> rat \<Rightarrow> pyfloat" where
  \<comment> \<open>\<^verbatim>\<open>x * y\<close> on two finite floats: no exception, an infinity out of range\<close>
  "float_mul x y =
     (let r = round_b64 (x * y)
      in if float_limit \<le> r then PosInf else if r \<le> - float_limit then NegInf else Finite r)"

definition float_gt :: "pyfloat \<Rightarrow> int \<Rightarrow> bool" where
  \<comment> \<open>\<^verbatim>\<open>x > n\<close> for a float and an \<^verbatim>\<open>int\<close>, compared exactly\<close>
  "float_gt x n = (case x of Finite r \<Rightarrow> of_int n < r | PosInf \<Rightarrow> True | NegInf \<Rightarrow> False)"

subsection \<open>Load summary\<close>

record load_summary =
  ls_total_watts :: int
  ls_total_kw :: rat
  ls_capacity :: int
  ls_usage :: pyfloat
  ls_status :: string

definition capacity :: "app_state \<Rightarrow> int" where
  \<comment> \<open>\<^verbatim>\<open>self.selected_power or 30\<close>\<close>
  "capacity st = (case selected_power st of None \<Rightarrow> 30 | Some p \<Rightarrow> if p = 0 then 30 else p)"

definition usage_status :: "pyfloat \<Rightarrow> string" where
  "usage_status usage =
     (if float_gt usage 100 then ''OVERLOADED''
      else if float_gt usage 80 then ''HIGH LOAD''
      else ''SAFE'')"

definition total_watts :: "load list \<Rightarrow> int" where
  "total_watts ls = sum_list (map (\<lambda>l. watts l * quantity l) ls)"

fun load_rows :: "load list \<Rightarrow> py_error + string list" where
  \<comment> \<open>the first block of \<^verbatim>\<open>_build_load_tab\<close>: the label \<^verbatim>\<open>f"{watts:,} W"\<close> of every
      load, in the order of the ledger; the first label that cannot be formatted raises\<close>
  "load_rows [] = Inr []"
| "load_rows (l # ls) =
     (case fmt_thousands (watts l * quantity l) of
        Inl e \<Rightarrow> Inl e
      | Inr t \<Rightarrow>
          (case load_rows ls of
             Inl e \<Rightarrow> Inl e
           | Inr ts \<Rightarrow> Inr ((t @ '' W'') # ts)))"

definition load_tab_summary :: "app_state \<Rightarrow> py_error + load_summary" where
  \<comment> \<open>the second block of \<^verbatim>\<open>_build_load_tab\<close>, from \<^verbatim>\<open>total_watts = sum(...)\<close> on.
      Of the four texts of the summary the one of the capacity formats an \<^verbatim>\<open>int\<close> and
      can raise; the others format floats or are the status, and are left out\<close>
  "load_tab_summary st =
     (let tw = total_watts (loads st) in
      case int_truediv tw 1000 of
        Inl e \<Rightarrow> Inl e
      | Inr total_kw \<Rightarrow>
          (case int_truediv tw (capacity st * 1000) of
             Inl e \<Rightarrow> Inl e
           | Inr q \<Rightarrow>
               (let usage = float_mul q 100
                in case fmt_int (capacity st) of
                     Inl e \<Rightarrow> Inl e
                   | Inr capacity_text \<Rightarrow>
                       Inr \<lparr>ls_total_watts = tw, ls_total_kw = total_kw,
                            ls_capacity = capacity st, ls_usage = usage,
                            ls_status = usage_status usage\<rparr>)))"

definition build_load_tab :: "app_state \<Rightarrow> py_error + load_summary" where
  \<comment> \<open>\<^verbatim>\<open>_build_load_tab\<close>: the rows, then the summary; of the widgets only what they
      show is kept, and of the rows only whether their labels can be written\<close>
  "build_load_tab st =
     (case load_rows (loads st) of
        Inl e \<Rightarrow> Inl e
      | Inr labels \<Rightarrow> load_tab_summary st)"

definition switch_tab_load :: "app_state \<Rightarrow> py_error option" where
  \<comment> \<open>\<^verbatim>\<open>_switch_tab("load")\<close>: the load view is built anew; the value is the exception
      that building it raises, \<^const>\<open>None\<close> when it returns\<close>
  "switch_tab_load st = (case build_load_tab st of Inl e \<Rightarrow> Some e | Inr s \<Rightarrow> None)"

definition exact_usage_percent :: "app_state \<Rightarrow> rat" where
  \<comment> \<open>the percentage as a number, without rounding: what the float \<open>usage\<close> approximates\<close>
  "exact_usage_percent st =
     of_int (total_watts (loads st)) / of_int (capacity st * 1000) * 100"

subsection \<open>Load ledger\<close>

definition int_or :: "string \<Rightarrow> int \<Rightarrow> int option" where
  \<comment> \<open>\<^verbatim>\<open>int(var.get() or d)\<close>: the empty text reads as the default\<close>
  "int_or s d = (if s = [] then Some d else py_int s)"

definition submit ::
  "app_state \<Rightarrow> string \<Rightarrow> string \<Rightarrow> string \<Rightarrow> app_state \<times> py_error option" where
  \<comment> \<open>the \<^verbatim>\<open>submit\<close> handler of \<^verbatim>\<open>_add_load\<close> on the three entry texts. A
      \<^verbatim>\<open>ValueError\<close> of either \<^verbatim>\<open>int()\<close> is swallowed before anything is appended. After
      the append the load view is built anew inside the same \<^verbatim>\<open>try\<close>: a \<^verbatim>\<open>ValueError\<close>
      of that is swallowed too, any other exception escapes; the load stays appended.\<close>
  "submit st name_var watts_var qty_var =
     (case int_or watts_var 0 of
        None \<Rightarrow> (st, None)
      | Some w \<Rightarrow>
          (case int_or qty_var 1 of
             None \<Rightarrow> (st, None)
           | Some q \<Rightarrow>
               (let st1 = st\<lparr>loads := loads st @
                             [\<lparr>id' = load_id st,
                               name = (if name_var = [] then ''New Load'' else name_var),
                               watts = w, quantity = q\<rparr>],
                          load_id := load_id st + 1\<rparr>
                in (st1, case switch_tab_load st1 of
                           Some ValueError \<Rightarrow> None
                         | raised \<Rightarrow> raised))))"

definition remove_load :: "app_state \<Rightarrow> int \<Rightarrow> app_state \<times> py_error option" where
  \<comment> \<open>\<^verbatim>\<open>_remove_load\<close>: the ledger is filtered, then the load view is built anew, and
      what that raises escapes\<close>
  "remove_load st lid =
     (let st1 = st\<lparr>loads := filter (\<lambda>l. id' l \<noteq> lid) (loads st)\<rparr>
      in (st1, switch_tab_load st1))"

subsection \<open>Record store\<close>

text \<open>
  The table \<^verbatim>\<open>reports\<close> is the list of its rows; its primary key is \<^const>\<open>sr_id\<close>. The
  flag \<open>err\<close> of each operation says whether SQLite raised \<^verbatim>\<open>sqlite3.Error\<close> in it, in
  which case nothing is written. The two JSON columns hold the data they serialise.
\<close>

definition db_save_report :: "SavedReport list \<Rightarrow> bool \<Rightarrow> SavedReport \<Rightarrow> SavedReport list \<times> bool" where
  \<comment> \<open>\<^verbatim>\<open>INSERT OR REPLACE\<close> of all fifteen columns\<close>
  "db_save_report rows err report =
     (if err then (rows, False)
      else (filter (\<lambda>r. sr_id r \<noteq> sr_id report) rows @ [report], True))"

definition db_get_reports :: "SavedReport list \<Rightarrow> bool \<Rightarrow> int \<Rightarrow> SavedReport list" where
  \<comment> \<open>\<^verbatim>\<open>ORDER BY updated_at DESC LIMIT ?\<close>; a negative limit is no limit in SQLite. Rows
      with equal \<^verbatim>\<open>updated_at\<close> come in the order of the table, as SQLite returns them.\<close>
  "db_get_reports rows err limit =
     (if err then []
      else let sorted_rows = rev (sort_key sr_updated_at (rev rows))
           in if limit < 0 then sorted_rows else take (nat limit) sorted_rows)"

definition db_delete_report :: "SavedReport list \<Rightarrow> bool \<Rightarrow> string \<Rightarrow> SavedReport list \<times> bool" where
  "db_delete_report rows err report_id =
     (if err then (rows, False) else (filter (\<lambda>r. sr_id r \<noteq> report_id) rows, True))"

subsection \<open>Saving a report\<close>

record specs_dict =
  sd_voltage :: string
  sd_amperage :: string
  sd_wire_gauge :: string
  sd_neutral_wire :: string
  sd_ground_wire :: string
  sd_conduit_size :: string
  sd_breaker_size :: string
  sd_receptacle :: string

record report_data =
  d_report_id :: string
  d_project_name :: string
  d_project_address :: string
  d_contractor :: string
  d_electrician :: string
  d_license_number :: string
  d_phase_type :: "string option"
  d_power_rating :: "int option"
  d_specs :: specs_dict
  d_specs_notes :: string
  d_loads :: "load list"
  d_checklist :: "(string \<times> bool) list"

text \<open>
  What \<^verbatim>\<open>_save_report\<close> takes from outside the application state: the clock, read four
  times, the renderer and the store.
\<close>

record save_env =
  now_md5 :: string  \<comment> \<open>\<^verbatim>\<open>hashlib.md5(datetime.now().isoformat().encode()).hexdigest()\<close>\<close>
  now_stamp :: string  \<comment> \<open>\<^verbatim>\<open>datetime.now().strftime('%Y%m%d_%H%M%S')\<close>\<close>
  now_created :: string  \<comment> \<open>\<^verbatim>\<open>datetime.now().isoformat()\<close> for \<^verbatim>\<open>created_at\<close>\<close>
  now_updated :: string  \<comment> \<open>the same for \<^verbatim>\<open>updated_at\<close>\<close>
  reports_path :: "string \<Rightarrow> string"  \<comment> \<open>\<^verbatim>\<open>str(self.reports_dir / filename)\<close>\<close>
  pdf_generate :: "string \<Rightarrow> report_data \<Rightarrow> bool"  \<comment> \<open>\<^verbatim>\<open>PDFReportGenerator.generate\<close>\<close>
  db_error :: bool  \<comment> \<open>\<^verbatim>\<open>sqlite3.Error\<close> in \<^verbatim>\<open>DatabaseManager.save_report\<close>\<close>

definition gather_data :: "app_state \<Rightarrow> save_env \<Rightarrow> WiringSpecs \<Rightarrow> report_data" where
  "gather_data st env specs =
     \<lparr>d_report_id = take 12 (now_md5 env),
      d_project_name =
        (if project_name (info st) = [] then ''Untitled Project'' else project_name (info st)),
      d_project_address = project_address (info st),
      d_contractor = contractor (info st),
      d_electrician = electrician (info st),
      d_license_number = license_number (info st),
      d_phase_type = selected_phase st,
      d_power_rating = selected_power st,
      d_specs =
        \<lparr>sd_voltage = voltage specs, sd_amperage = amperage specs,
         sd_wire_gauge = wire_gauge specs, sd_neutral_wire = neutral_wire specs,
         sd_ground_wire = ground_wire specs, sd_conduit_size = conduit_size specs,
         sd_breaker_size = breaker_size specs, sd_receptacle = receptacle specs\<rparr>,
      d_specs_notes = spec_notes specs,
      d_loads = loads st,
      d_checklist = checklist_vars st\<rparr>"

definition keep_char :: "char \<Rightarrow> bool" where
  \<comment> \<open>\<^verbatim>\<open>c.isalnum() or c in ' -_'\<close>\<close>
  "keep_char c = (isalnum c \<or> c \<in> set '' -_'')"

definition replace_spaces :: "string \<Rightarrow> string" where
  \<comment> \<open>\<^verbatim>\<open>.replace(' ', '_')\<close>\<close>
  "replace_spaces s = map (\<lambda>c. if c = CHR '' '' then CHR ''_'' else c) s"

definition safe_name :: "string \<Rightarrow> string" where
  "safe_name pname = replace_spaces (take 40 (strip (filter keep_char pname)))"

definition fmt_phase :: "string option \<Rightarrow> string" where
  \<comment> \<open>an f-string field of a value that is a \<^verbatim>\<open>str\<close> or \<^verbatim>\<open>None\<close>\<close>
  "fmt_phase p = (case p of None \<Rightarrow> ''None'' | Some t \<Rightarrow> t)"

definition fmt_power :: "int option \<Rightarrow> string" where
  "fmt_power r = (case r of None \<Rightarrow> ''None'' | Some n \<Rightarrow> py_str n)"

definition report_filename :: "report_data \<Rightarrow> string \<Rightarrow> string" where
  "report_filename data timestamp =
     safe_name (d_project_name data) @ ''_'' @ fmt_phase (d_phase_type data) @ ''_'' @
     fmt_power (d_power_rating data) @ ''kW_'' @ timestamp @ ''.pdf''"

definition make_report :: "report_data \<Rightarrow> save_env \<Rightarrow> string \<Rightarrow> SavedReport" where
  "make_report data env pdf_path =
     \<lparr>sr_id = d_report_id data,
      sr_project_name = d_project_name data,
      sr_phase_type = d_phase_type data,
      sr_power_rating = d_power_rating data,
      sr_status = ''completed'',
      sr_created_at = now_created env,
      sr_updated_at = now_updated env,
      sr_project_address = d_project_address data,
      sr_contractor = d_contractor data,
      sr_electrician = d_electrician data,
      sr_license_number = d_license_number data,
      sr_custom_notes = [],
      sr_checklist_data = d_checklist data,
      sr_load_data = d_loads data,
      sr_pdf_path = pdf_path\<rparr>"

definition save_report :: "app_state \<Rightarrow> save_env \<Rightarrow> app_state" where
  "save_report st env =
     (case current_specs st of
        None \<Rightarrow> st
      | Some specs \<Rightarrow>
          (let data = gather_data st env specs;
               pdf_path = reports_path env (report_filename data (now_stamp env))
           in if \<not> pdf_generate env pdf_path data then st
              else st\<lparr>db := fst (db_save_report (db st) (db_error env)
                                    (make_report data env pdf_path))\<rparr>))"

subsection \<open>Runs of the application\<close>

datatype event =
    SelectPhase string
  | SelectPower int
  | ResetSelection
  | SetProjectInfo project_info
  | ToggleChecklist "(string \<times> bool) list"
  | AddLoad string string string
  | RemoveLoad int
  | SaveReport save_env

fun step :: "app_state \<Rightarrow> event \<Rightarrow> app_state" where
  \<comment> \<open>the state a handler leaves, whether or not an exception escapes it\<close>
  "step st (SelectPhase p) = select_phase st p"
| "step st (SelectPower r) = select_power st r"
| "step st ResetSelection = reset_selection st"
| "step st (SetProjectInfo i) = st\<lparr>info := i\<rparr>"
| "step st (ToggleChecklist c) = st\<lparr>checklist_vars := c\<rparr>"
| "step st (AddLoad n w q) = fst (submit st n w q)"
| "step st (RemoveLoad i) = fst (remove_load st i)"
| "step st (SaveReport env) = save_report st env"

definition run :: "app_state \<Rightarrow> event list \<Rightarrow> app_state" where
  "run st evs = foldl step st evs"

definition accepted :: "event \<Rightarrow> bool" where
  \<comment> \<open>an \<^const>\<open>AddLoad\<close> whose two numbers parse\<close>
  "accepted ev =
     (case ev of AddLoad n w q \<Rightarrow> int_or w 0 \<noteq> None \<and> int_or q 1 \<noteq> None | _ \<Rightarrow> False)"

subsection \<open>Invariant of the ledger\<close>

definition ledger_ok :: "app_state \<Rightarrow> bool" where
  \<comment> \<open>the ids in the ledger are distinct, positive and below the counter\<close>
  "ledger_ok st =
     (0 < load_id st \<and> distinct (map id' (loads st)) \<and>
      (\<forall>l \<in> set (loads st). 0 < id' l \<and> id' l < load_id st))"

subsection \<open>Renders that succeeded along a run\<close>

definition pdf_path_of :: "app_state \<Rightarrow> save_env \<Rightarrow> WiringSpecs \<Rightarrow> string" where
  \<comment> \<open>the path \<^verbatim>\<open>_save_report\<close> hands to the renderer\<close>
  "pdf_path_of st env specs =
     reports_path env (report_filename (gather_data st env specs) (now_stamp env))"

fun rendered :: "app_state \<Rightarrow> event list \<Rightarrow> string list" where
  \<comment> \<open>the paths for which \<^verbatim>\<open>generate\<close> returned \<^verbatim>\<open>True\<close>, in the order of the run\<close>
  "rendered st [] = []"
| "rendered st (ev # evs) =
     (case ev of
        SaveReport env \<Rightarrow>
          (case current_specs st of
             None \<Rightarrow> []
           | Some specs \<Rightarrow>
               if pdf_generate env (pdf_path_of st env specs) (gather_data st env specs)
               then [pdf_path_of st env specs] else [])
      | _ \<Rightarrow> []) @ rendered (step st ev) evs"

subsection \<open>The file name as the specification words it\<close>

definition spec_safe_name :: "string \<Rightarrow> string" where
  \<comment> \<open>keep the allowed characters, truncate to 40, then substitute spaces: the three steps
      the specification names, without the \<^verbatim>\<open>strip()\<close> of the code\<close>
  "spec_safe_name pname = replace_spaces (take 40 (filter keep_char pname))"

subsection \<open>Sample surroundings of a save\<close>

definition render_succeeds :: "string \<Rightarrow> report_data \<Rightarrow> bool" where
  "render_succeeds path data = True"

definition render_fails :: "string \<Rightarrow> report_data \<Rightarrow> bool" where
  "render_fails path data = False"

definition sample_env :: save_env where
  "sample_env =
     \<lparr>now_md5 = ''9e107d9d372bb6826bd81d3542a419d6'', now_stamp = ''20240305_141500'',
      now_created = ''2024-03-05T14:15:00.120000'', now_updated = ''2024-03-05T14:15:00.120450'',
      reports_path = append ''/home/user/.maven/Reports/'',
      pdf_generate = render_succeeds, db_error = False\<rparr>"

section \<open>Properties\<close>

subsection \<open>The ledger along a run\<close>

lemma ledger_ok_init: "ledger_ok init_state"
  by (simp add: ledger_ok_def init_state_def DEFAULT_LOADS_def)

lemma loads_select_phase [simp]: "loads (select_phase st p) = loads st" "load_id (select_phase st p) = load_id st"
  by (simp_all add: select_phase_def update_specs_def Let_def)

lemma loads_select_power [simp]: "loads (select_power st r) = loads st" "load_id (select_power st r) = load_id st"
  by (simp_all add: select_power_def update_specs_def Let_def)

lemma loads_reset [simp]: "loads (reset_selection st) = loads st" "load_id (reset_selection st) = load_id st"
  by (simp_all add: reset_selection_def)

lemma loads_save [simp]: "loads (save_report st env) = loads st" "load_id (save_report st env) = load_id st"
  by (simp_all add: save_report_def Let_def split: option.splits)

lemma submit_cases:
  "fst (submit st n w q) =
     (if int_or w 0 = None \<or> int_or q 1 = None then st
      else st\<lparr>loads := loads st @
                 [\<lparr>id' = load_id st, name = (if n = [] then ''New Load'' else n),
                   watts = the (int_or w 0), quantity = the (int_or q 1)\<rparr>],
              load_id := load_id st + 1\<rparr>)"
  by (auto simp: submit_def Let_def split: option.splits)

lemma fst_remove_load:
  "fst (remove_load st i) = st\<lparr>loads := filter (\<lambda>l. id' l \<noteq> i) (loads st)\<rparr>"
  by (simp add: remove_load_def Let_def)

lemma ledger_ok_step: "ledger_ok st \<Longrightarrow> ledger_ok (step st ev)"
proof (cases ev)
  case (AddLoad n w q)
  assume "ledger_ok st"
  then show ?thesis unfolding AddLoad
    by (auto simp: ledger_ok_def submit_cases)
next
  case (RemoveLoad i)
  assume "ledger_ok st"
  then show ?thesis unfolding RemoveLoad
    by (auto simp: ledger_ok_def fst_remove_load distinct_map_filter)
qed (auto simp: ledger_ok_def)

lemma run_snoc: "run st (evs @ [ev]) = step (run st evs) ev"
  by (simp add: run_def)

lemma run_append: "run st (evs @ evs') = run (run st evs) evs'"
  by (simp add: run_def)

lemma ledger_ok_run: "ledger_ok st \<Longrightarrow> ledger_ok (run st evs)"
  by (induction evs rule: rev_induct) (simp_all add: run_snoc ledger_ok_step, simp add: run_def)

lemma load_id_step: "load_id (step st ev) = load_id st + (if accepted ev then 1 else 0)"
  by (cases ev) (auto simp: accepted_def submit_cases fst_remove_load)

lemma load_id_run: "load_id (run st evs) = load_id st + int (length (filter accepted evs))"
  by (induction evs rule: rev_induct) (simp_all add: run_snoc load_id_step, simp add: run_def)

subsection \<open>Decimal digits and the limit on them\<close>

lemma length_nat_digits_le: "n < 10 ^ k \<Longrightarrow> 0 < k \<Longrightarrow> length (nat_digits n) \<le> k"
proof (induction n arbitrary: k rule: nat_digits.induct)
  case (1 n)
  show ?case
  proof (cases "n < 10")
    case True
    then show ?thesis using 1(3) by (simp add: nat_digits.simps [of n])
  next
    case False
    obtain j where k: "k = Suc j" using 1(3) by (cases k) auto
    have "0 < j"
    proof (rule ccontr)
      assume "\<not> 0 < j"
      then show False using 1(2) False k by simp
    qed
    moreover have "n div 10 < 10 ^ j" using 1(2) k by (simp add: less_mult_imp_div_less)
    ultimately have "length (nat_digits (n div 10)) \<le> j" using 1(1) [OF False] by blast
    then show ?thesis using False k by (simp add: nat_digits.simps [of n])
  qed
qed

lemma length_nat_digits_gt: "10 ^ k \<le> n \<Longrightarrow> k < length (nat_digits n)"
proof (induction n arbitrary: k rule: nat_digits.induct)
  case (1 n)
  show ?case
  proof (cases "n < 10")
    case True
    have "k = 0"
    proof (cases k)
      case (Suc j)
      have "(1::nat) \<le> 10 ^ j" by simp
      moreover have "10 * 10 ^ j \<le> n" using 1(2) Suc by simp
      ultimately have False using True by linarith
      then show ?thesis ..
    qed simp
    then show ?thesis using True by (simp add: nat_digits.simps [of n])
  next
    case False
    show ?thesis
    proof (cases k)
      case 0
      then show ?thesis using False by (simp add: nat_digits.simps [of n])
    next
      case (Suc j)
      have "10 ^ j \<le> n div 10" using 1(2) Suc by (simp add: less_eq_div_iff_mult_less_eq mult.commute)
      then have "j < length (nat_digits (n div 10))" using 1(1) [OF False] by blast
      then show ?thesis using False Suc by (simp add: nat_digits.simps [of n])
    qed
  qed
qed

lemma max_str_digits_pos: "0 < int_max_str_digits"
  by (simp add: int_max_str_digits_def)

lemma nat_abs_less_pow: "nat \<bar>n\<bar> < 10 ^ k \<longleftrightarrow> \<bar>n\<bar> < 10 ^ k"
proof -
  have "nat \<bar>n\<bar> < 10 ^ k \<longleftrightarrow> \<bar>n\<bar> < int (10 ^ k)" by (rule nat_less_iff) simp
  then show ?thesis by simp
qed

lemma fmt_thousands_fits:
  "\<bar>n\<bar> < 10 ^ int_max_str_digits \<Longrightarrow> \<exists>t. fmt_thousands n = Inr t"
  using length_nat_digits_le [of "nat \<bar>n\<bar>" int_max_str_digits] max_str_digits_pos
  by (simp add: fmt_thousands_def Let_def nat_abs_less_pow)

lemma fmt_thousands_long:
  "10 ^ int_max_str_digits \<le> \<bar>n\<bar> \<Longrightarrow> fmt_thousands n = Inl ValueError"
  using length_nat_digits_gt [of int_max_str_digits "nat \<bar>n\<bar>"] nat_abs_less_pow [of n int_max_str_digits]
  by (simp add: fmt_thousands_def Let_def not_less [symmetric])

lemma fmt_thousands_Inl: "fmt_thousands n = Inl e \<Longrightarrow> e = ValueError"
  by (auto simp: fmt_thousands_def Let_def split: if_splits)

lemma fmt_int_fits: "\<bar>n\<bar> < 10 ^ int_max_str_digits \<Longrightarrow> fmt_int n = Inr (py_str n)"
  using length_nat_digits_le [of "nat \<bar>n\<bar>" int_max_str_digits] max_str_digits_pos
  by (simp add: fmt_int_def nat_abs_less_pow)

lemma fmt_int_long: "10 ^ int_max_str_digits \<le> \<bar>n\<bar> \<Longrightarrow> fmt_int n = Inl ValueError"
  using length_nat_digits_gt [of int_max_str_digits "nat \<bar>n\<bar>"] nat_abs_less_pow [of n int_max_str_digits]
  by (simp add: fmt_int_def not_less [symmetric])

lemma fits_small: "x < 10 ^ 5 \<Longrightarrow> x < (10::int) ^ int_max_str_digits"
proof -
  assume "x < 10 ^ 5"
  moreover have "(10::int) ^ 5 \<le> 10 ^ int_max_str_digits"
    by (rule power_increasing) (simp_all add: int_max_str_digits_def)
  ultimately show ?thesis by (rule less_le_trans)
qed

lemma load_rows_Inl: "load_rows ls = Inl e \<Longrightarrow> e = ValueError"
  by (induction ls) (auto dest: fmt_thousands_Inl split: sum.splits)

lemma load_rows_fits:
  "\<forall>l \<in> set ls. \<bar>watts l * quantity l\<bar> < 10 ^ int_max_str_digits \<Longrightarrow> \<exists>ts. load_rows ls = Inr ts"
proof (induction ls)
  case (Cons l ls)
  obtain t where "fmt_thousands (watts l * quantity l) = Inr t"
    using Cons.prems fmt_thousands_fits [of "watts l * quantity l"] by auto
  moreover obtain ts where "load_rows ls = Inr ts" using Cons by auto
  ultimately show ?case by simp
qed simp

lemma load_rows_long:
  "\<exists>l \<in> set ls. 10 ^ int_max_str_digits \<le> \<bar>watts l * quantity l\<bar> \<Longrightarrow> load_rows ls = Inl ValueError"
proof (induction ls)
  case (Cons l ls)
  show ?case
  proof (cases "10 ^ int_max_str_digits \<le> \<bar>watts l * quantity l\<bar>")
    case True
    then show ?thesis by (simp add: fmt_thousands_long)
  next
    case False
    then have "load_rows ls = Inl ValueError" using Cons by auto
    then show ?thesis by (auto dest: fmt_thousands_Inl split: sum.splits)
  qed
qed simp

lemma build_load_tab_Inr: "build_load_tab st = Inr s \<Longrightarrow> load_tab_summary st = Inr s"
  by (simp add: build_load_tab_def split: sum.splits)

lemma build_load_tab_fits:
  "\<forall>l \<in> set (loads st). \<bar>watts l * quantity l\<bar> < 10 ^ int_max_str_digits \<Longrightarrow>
     build_load_tab st = load_tab_summary st"
  using load_rows_fits [of "loads st"] by (auto simp: build_load_tab_def)

lemma build_load_tab_long:
  "\<exists>l \<in> set (loads st). 10 ^ int_max_str_digits \<le> \<bar>watts l * quantity l\<bar> \<Longrightarrow>
     build_load_tab st = Inl ValueError"
  using load_rows_long [of "loads st"] by (simp add: build_load_tab_def)

subsection \<open>Rounding to binary64 is monotone\<close>

lemma rhe_ge_floor: "\<lfloor>t\<rfloor> \<le> round_half_even t"
  by (simp add: round_half_even_def Let_def)

lemma rhe_le_floor1: "round_half_even t \<le> \<lfloor>t\<rfloor> + 1"
  by (simp add: round_half_even_def Let_def)

lemma rhe_of_int [simp]: "round_half_even (of_int n) = n"
  by (simp add: round_half_even_def Let_def)

lemma rhe_mono: "s \<le> t \<Longrightarrow> round_half_even s \<le> round_half_even t"
proof -
  assume st: "s \<le> t"
  then have "\<lfloor>s\<rfloor> \<le> \<lfloor>t\<rfloor>" by (rule floor_mono)
  then consider "\<lfloor>s\<rfloor> = \<lfloor>t\<rfloor>" | "\<lfloor>s\<rfloor> + 1 \<le> \<lfloor>t\<rfloor>" by linarith
  then show ?thesis
  proof cases
    case 1
    then show ?thesis using st by (auto simp: round_half_even_def Let_def)
  next
    case 2
    then show ?thesis using rhe_le_floor1 [of s] rhe_ge_floor [of t] by linarith
  qed
qed

lemma rhe_uminus: "round_half_even (- t) = - round_half_even t"
proof (cases "t = of_int \<lfloor>t\<rfloor>")
  case True
  then obtain n where "t = of_int n" ..
  then have "- t = of_int (- n)" by simp
  then show ?thesis using \<open>t = of_int n\<close> by (simp only: rhe_of_int)
next
  case False
  then have fl: "\<lfloor>- t\<rfloor> = - \<lfloor>t\<rfloor> - 1"
    by (metis Ints_of_int add.inverse_inverse ceiling_altdef ceiling_def diff_minus_eq_add floor_of_int of_int_minus Ints_cases minus_diff_eq uminus_add_conv_diff)
  show ?thesis
    unfolding round_half_even_def Let_def fl
    by (auto simp: field_simps)
qed


lemma bitlen_lower: "0 < a \<Longrightarrow> power_int 2 (bitlen a - 1) \<le> (of_int a :: rat)"
proof -
  assume a: "0 < a"
  then have b: "1 \<le> bitlen a" by (auto simp: bitlen_alt_def)
  have "(2::int) ^ nat (bitlen a - 1) \<le> a" using bitlen_bounds [OF a] by simp
  then have "(of_int ((2::int) ^ nat (bitlen a - 1)) :: rat) \<le> of_int a" by (simp only: of_int_le_iff)
  then show ?thesis using b by (simp add: power_int_def)
qed

lemma bitlen_upper: "0 < a \<Longrightarrow> (of_int a :: rat) < power_int 2 (bitlen a)"
proof -
  assume a: "0 < a"
  have b: "0 \<le> bitlen a" by (rule bitlen_nonneg)
  have "a < (2::int) ^ nat (bitlen a)" using bitlen_bounds [OF a] by simp
  then have "(of_int a :: rat) < of_int ((2::int) ^ nat (bitlen a))" by (simp only: of_int_less_iff)
  then show ?thesis using b by (simp add: power_int_def)
qed

lemma ilog2_bounds:
  assumes "x \<noteq> 0"
  shows "power_int 2 (ilog2 x) \<le> \<bar>x\<bar>" and "\<bar>x\<bar> < power_int 2 (ilog2 x + 1)"
proof -
  obtain a b where q: "quotient_of \<bar>x\<bar> = (a, b)" by (cases "quotient_of \<bar>x\<bar>")
  have b: "0 < b" using q by (rule quotient_of_denom_pos)
  have x: "\<bar>x\<bar> = of_int a / of_int b" using q by (rule quotient_of_div)
  have "0 < \<bar>x\<bar>" using assms by simp
  then have a: "0 < a" using b x by (simp add: zero_less_divide_iff)
  define k where "k = bitlen a - bitlen b"
  have il: "ilog2 x = (if power_int 2 k \<le> \<bar>x\<bar> then k else k - 1)"
    by (simp add: ilog2_def q k_def Let_def)
  have bpos: "(0::rat) < of_int b" using b by simp
  have "power_int 2 (bitlen a - 1) \<le> (of_int a :: rat)" using a by (rule bitlen_lower)
  moreover have "(of_int b :: rat) < power_int 2 (bitlen b)" using b by (rule bitlen_upper)
  ultimately have "power_int 2 (bitlen a - 1) * of_int b < (of_int a :: rat) * power_int 2 (bitlen b)"
    using bpos by (intro mult_le_less_imp_less) simp_all
  then have "power_int 2 (bitlen a - 1) / power_int 2 (bitlen b) < (of_int a :: rat) / of_int b"
    using bpos by (simp add: field_simps)
  moreover have "power_int (2::rat) ((bitlen a - 1) - bitlen b) =
      power_int 2 (bitlen a - 1) / power_int 2 (bitlen b)"
    by (rule power_int_diff) simp
  ultimately have lo': "power_int 2 ((bitlen a - 1) - bitlen b) < \<bar>x\<bar>"
    unfolding x by simp
  have km: "k - 1 = (bitlen a - 1) - bitlen b" by (simp add: k_def)
  have lo: "power_int 2 (k - 1) < \<bar>x\<bar>"
    unfolding km by (fact lo')
  have "(of_int a :: rat) < power_int 2 (bitlen a)" using a by (rule bitlen_upper)
  moreover have "power_int 2 (bitlen b - 1) \<le> (of_int b :: rat)" using b by (rule bitlen_lower)
  ultimately have "(of_int a :: rat) * power_int 2 (bitlen b - 1) < power_int 2 (bitlen a) * of_int b"
    using bpos a by (intro mult_less_le_imp_less) simp_all
  then have "(of_int a :: rat) / of_int b < power_int 2 (bitlen a) / power_int 2 (bitlen b - 1)"
    using bpos by (simp add: field_simps)
  moreover have "power_int (2::rat) (bitlen a - (bitlen b - 1)) =
      power_int 2 (bitlen a) / power_int 2 (bitlen b - 1)"
    by (rule power_int_diff) simp
  ultimately have hi': "\<bar>x\<bar> < power_int 2 (bitlen a - (bitlen b - 1))"
    unfolding x by simp
  have kp: "k + 1 = bitlen a - (bitlen b - 1)" by (simp add: k_def)
  have hi: "\<bar>x\<bar> < power_int 2 (k + 1)"
    unfolding kp by (fact hi')
  show "power_int 2 (ilog2 x) \<le> \<bar>x\<bar>" using lo by (simp add: il)
  show "\<bar>x\<bar> < power_int 2 (ilog2 x + 1)"
  proof (cases "power_int 2 k \<le> \<bar>x\<bar>")
    case True then show ?thesis using hi by (simp add: il)
  next
    case False then show ?thesis by (simp add: il)
  qed
qed


lemma ilog2_uminus [simp]: "ilog2 (- x) = ilog2 x"
  by (simp add: ilog2_def)

lemma round_b64_uminus: "round_b64 (- x) = - round_b64 x"
  by (simp add: round_b64_def Let_def rhe_uminus)

lemma round_b64_nonneg: "0 \<le> x \<Longrightarrow> 0 \<le> round_b64 x"
proof -
  assume x: "0 \<le> x"
  have "0 \<le> round_half_even (x / power_int 2 e)" for e
  proof -
    have "0 \<le> x / power_int 2 e" using x by simp
    then have "0 \<le> \<lfloor>x / power_int 2 e\<rfloor>" by simp
    then show ?thesis using rhe_ge_floor [of "x / power_int 2 e"] by linarith
  qed
  then show ?thesis by (simp add: round_b64_def Let_def)
qed

lemma rhe_ge_int: "of_int n \<le> t \<Longrightarrow> n \<le> round_half_even t"
  using rhe_mono [of "of_int n" t] by simp

lemma rhe_le_int: "t \<le> of_int n \<Longrightarrow> round_half_even t \<le> n"
  using rhe_mono [of t "of_int n"] by simp

lemma round_b64_pos_mono:
  assumes x: "0 < x" and xy: "x \<le> y"
  shows "round_b64 x \<le> round_b64 y"
proof -
  have y: "0 < y" using x xy by simp
  define e1 where "e1 = max (ilog2 x - 52) (- 1074)"
  define e2 where "e2 = max (ilog2 y - 52) (- 1074)"
  have rx: "round_b64 x = of_int (round_half_even (x / power_int 2 e1)) * power_int 2 e1"
    using x by (simp add: round_b64_def e1_def Let_def)
  have ry: "round_b64 y = of_int (round_half_even (y / power_int 2 e2)) * power_int 2 e2"
    using y by (simp add: round_b64_def e2_def Let_def)
  have "power_int 2 (ilog2 x) \<le> x" using ilog2_bounds(1) [of x] x by simp
  also have "x \<le> y" by (fact xy)
  also have "y < power_int 2 (ilog2 y + 1)" using ilog2_bounds(2) [of y] y by simp
  finally have "power_int (2::rat) (ilog2 x) < power_int 2 (ilog2 y + 1)" .
  moreover have "power_int (2::rat) (ilog2 y + 1) \<le> power_int 2 (ilog2 x)"
    if "ilog2 y + 1 \<le> ilog2 x"
    using that by (rule power_int_increasing) simp
  ultimately have "ilog2 x < ilog2 y + 1" by fastforce
  then have le: "e1 \<le> e2" by (simp add: e1_def e2_def)
  show ?thesis
  proof (cases "e1 = e2")
    case True
    have "x / power_int 2 e2 \<le> y / power_int 2 e2" using xy by (simp add: divide_right_mono)
    then have "round_half_even (x / power_int 2 e2) \<le> round_half_even (y / power_int 2 e2)"
      by (rule rhe_mono)
    then show ?thesis unfolding rx ry True by (simp add: mult_right_mono)
  next
    case False
    then have lt: "e1 + 1 \<le> e2" using le by simp
    then have e2: "e2 = ilog2 y - 52" by (simp add: e1_def e2_def)
    have "x < power_int 2 (ilog2 x + 1)" using ilog2_bounds(2) [of x] x by simp
    also have "power_int (2::rat) (ilog2 x + 1) \<le> power_int 2 (e1 + 53)"
      by (rule power_int_increasing) (simp_all add: e1_def)
    also have "power_int (2::rat) (e1 + 53) = power_int 2 e1 * 2 ^ 53"
      by (simp add: power_int_add)
    finally have "x / power_int 2 e1 \<le> of_int (2 ^ 53)" by (simp add: field_simps)
    then have "round_half_even (x / power_int 2 e1) \<le> 2 ^ 53" by (rule rhe_le_int)
    then have "(of_int (round_half_even (x / power_int 2 e1)) :: rat) \<le> of_int (2 ^ 53)"
      by (simp only: of_int_le_iff)
    then have "round_b64 x \<le> 2 ^ 53 * power_int 2 e1"
      unfolding rx by (simp add: mult_right_mono)
    also have "\<dots> = power_int 2 (e1 + 53)" by (simp add: power_int_add)
    also have "\<dots> \<le> power_int 2 (e2 + 52)"
      by (rule power_int_increasing) (use lt in simp_all)
    finally have a: "round_b64 x \<le> power_int 2 (e2 + 52)" .
    have "power_int (2::rat) (e2 + 52) = power_int 2 (ilog2 y)" by (simp add: e2)
    also have "\<dots> \<le> y" using ilog2_bounds(1) [of y] y by simp
    finally have "power_int 2 e2 * 2 ^ 52 \<le> y" by (simp add: power_int_add)
    then have "of_int (2 ^ 52) \<le> y / power_int 2 e2" by (simp add: field_simps)
    then have "2 ^ 52 \<le> round_half_even (y / power_int 2 e2)" by (rule rhe_ge_int)
    then have "(of_int (2 ^ 52) :: rat) \<le> of_int (round_half_even (y / power_int 2 e2))"
      by (simp only: of_int_le_iff)
    then have "2 ^ 52 * power_int 2 e2 \<le> round_b64 y"
      unfolding ry by (simp add: mult_right_mono)
    moreover have "2 ^ 52 * power_int (2::rat) e2 = power_int 2 (e2 + 52)"
      by (simp add: power_int_add)
    ultimately show ?thesis using a by simp
  qed
qed

lemma round_b64_mono: "x \<le> y \<Longrightarrow> round_b64 x \<le> round_b64 y"
proof -
  assume xy: "x \<le> y"
  consider "0 < x" | "x \<le> 0" "0 \<le> y" | "y < 0" using xy by linarith
  then show ?thesis
  proof cases
    case 1
    then show ?thesis using xy by (rule round_b64_pos_mono)
  next
    case 2
    have "0 \<le> round_b64 (- x)" using 2(1) by (intro round_b64_nonneg) simp
    then have "round_b64 x \<le> 0" by (simp add: round_b64_uminus)
    moreover have "0 \<le> round_b64 y" using 2(2) by (rule round_b64_nonneg)
    ultimately show ?thesis by simp
  next
    case 3
    have "round_b64 (- y) \<le> round_b64 (- x)" using 3 xy by (intro round_b64_pos_mono) simp_all
    then show ?thesis by (simp add: round_b64_uminus)
  qed
qed

subsection \<open>True division and the comparison of the usage\<close>

lemma pow2_lt_limit: "n < 1024 \<Longrightarrow> (2::rat) ^ n < float_limit"
  unfolding float_limit_def by (rule power_strict_increasing) simp_all

lemma small_lt_limit: "\<bar>x\<bar> \<le> 2 ^ 10 \<Longrightarrow> x < float_limit \<and> - float_limit < x"
  using pow2_lt_limit [of 10] by (simp add: abs_le_iff)

lemma int_truediv_Inr:
  "int_truediv a b = Inr q \<Longrightarrow> q = round_b64 (of_int a / of_int b) \<and> \<bar>q\<bar> < float_limit"
  by (auto simp: int_truediv_def Let_def split: if_splits)

lemma round_b64_abs_le: "\<bar>x\<bar> \<le> B \<Longrightarrow> \<bar>round_b64 x\<bar> \<le> round_b64 B"
proof -
  assume "\<bar>x\<bar> \<le> B"
  then have "x \<le> B" "- x \<le> B" by simp_all
  then have "round_b64 x \<le> round_b64 B" "round_b64 (- x) \<le> round_b64 B"
    by (simp_all only: round_b64_mono)
  then show ?thesis by (simp add: round_b64_uminus abs_le_iff)
qed

lemma ilog2_unique:
  assumes "power_int 2 k \<le> \<bar>x\<bar>" and "\<bar>x\<bar> < power_int 2 (k + 1)"
  shows "ilog2 x = k"
proof -
  have "(0::rat) < power_int 2 k" by simp
  then have "0 < \<bar>x\<bar>" using assms(1) by linarith
  then have x: "x \<noteq> 0" by simp
  have "power_int (2::rat) (ilog2 x) < power_int 2 (k + 1)"
    using ilog2_bounds(1) [OF x] assms(2) by simp
  moreover have "power_int (2::rat) (k + 1) \<le> power_int 2 (ilog2 x)" if "k + 1 \<le> ilog2 x"
    using that by (rule power_int_increasing) simp
  ultimately have a: "ilog2 x < k + 1" by fastforce
  have "power_int (2::rat) k < power_int 2 (ilog2 x + 1)"
    using ilog2_bounds(2) [OF x] assms(1) by simp
  moreover have "power_int (2::rat) (ilog2 x + 1) \<le> power_int 2 k" if "ilog2 x + 1 \<le> k"
    using that by (rule power_int_increasing) simp
  ultimately have "k < ilog2 x + 1" by fastforce
  then show ?thesis using a by simp
qed

lemma round_b64_power_int:
  assumes "- 1022 \<le> k"
  shows "round_b64 (power_int 2 k) = power_int 2 k"
proof -
  have pos: "(0::rat) < power_int 2 k" by simp
  have "power_int (2::rat) k < power_int 2 (k + 1)" by (rule power_int_strict_increasing) simp_all
  then have il: "ilog2 (power_int 2 k) = k"
    using pos by (intro ilog2_unique) simp_all
  have e: "max (k - 52) (- 1074) = k - 52" using assms by simp
  have "power_int (2::rat) k / power_int 2 (k - 52) = power_int 2 (k - (k - 52))"
    by (rule power_int_diff [symmetric]) simp
  also have "\<dots> = of_int (2 ^ 52)" by simp
  finally have "round_half_even (power_int (2::rat) k / power_int 2 (k - 52)) = 2 ^ 52"
    by (simp only: rhe_of_int)
  moreover have "(2::rat) ^ 52 * power_int 2 (k - 52) = power_int 2 k"
    using power_int_add [of "2::rat" 52 "k - 52"] by simp
  ultimately show ?thesis using pos by (simp add: round_b64_def il e Let_def)
qed

lemma int_truediv_defined:
  assumes "\<bar>a\<bar> \<le> 2 ^ n" and "n < 1024" and "b \<noteq> 0"
  shows "int_truediv a b = Inr (round_b64 (of_int a / of_int b))"
proof -
  have b: "(1::rat) \<le> \<bar>of_int b\<bar>" using assms(3) by (simp flip: of_int_abs)
  have "\<bar>(of_int a :: rat) / of_int b\<bar> = \<bar>of_int a\<bar> / \<bar>of_int b\<bar>" by simp
  also have "\<dots> \<le> \<bar>of_int a\<bar> / 1" using b by (intro divide_left_mono) simp_all
  also have "\<dots> = of_int \<bar>a\<bar>" by simp
  also have "\<dots> \<le> of_int (2 ^ n)" using assms(1) by (simp only: of_int_le_iff)
  also have "\<dots> = power_int 2 (int n)" by simp
  finally have "\<bar>round_b64 (of_int a / of_int b)\<bar> \<le> round_b64 (power_int 2 (int n))"
    by (rule round_b64_abs_le)
  also have "\<dots> = power_int 2 (int n)" by (rule round_b64_power_int) simp
  also have "\<dots> = 2 ^ n" by simp
  also have "\<dots> < float_limit" using assms(2) by (rule pow2_lt_limit)
  finally show ?thesis using assms(3) by (simp add: int_truediv_def Let_def)
qed

lemma float_not_gt:
  assumes "q \<le> c" and "round_b64 (c * 100) \<le> of_int n" and "(of_int n :: rat) < float_limit"
  shows "\<not> float_gt (float_mul q 100) n"
proof -
  have "q * 100 \<le> c * 100" using assms(1) by simp
  then have "round_b64 (q * 100) \<le> round_b64 (c * 100)" by (rule round_b64_mono)
  then have "round_b64 (q * 100) \<le> of_int n" using assms(2) by simp
  then show ?thesis using assms(3) by (simp add: float_gt_def float_mul_def Let_def)
qed

lemma float_is_gt:
  assumes "c \<le> q" and "of_int n < round_b64 (c * 100)" and "- float_limit < (of_int n :: rat)"
  shows "float_gt (float_mul q 100) n"
proof -
  have "c * 100 \<le> q * 100" using assms(1) by simp
  then have "round_b64 (c * 100) \<le> round_b64 (q * 100)" by (rule round_b64_mono)
  then have "of_int n < round_b64 (q * 100)" using assms(2) by simp
  then show ?thesis using assms(3) by (simp add: float_gt_def float_mul_def Let_def)
qed

subsection \<open>The status of the load summary\<close>

lemma b64_80: "round_b64 (round_b64 (4 / 5) * 100) = 80" by code_simp
lemma b64_100: "round_b64 (round_b64 1 * 100) = 100" by code_simp
lemma b64_above_80: "80 < round_b64 (round_b64 (24001 / 30000) * 100)" by code_simp
lemma b64_above_100: "100 < round_b64 (round_b64 (30001 / 30000) * 100)" by code_simp

lemma status_cap30:
  assumes cap: "capacity st = 30" and ok: "load_tab_summary st = Inr s"
  shows "ls_status s =
     (if total_watts (loads st) \<le> 24000 then ''SAFE''
      else if total_watts (loads st) \<le> 30000 then ''HIGH LOAD'' else ''OVERLOADED'')"
proof -
  define tw where "tw = total_watts (loads st)"
  obtain kw q where kw: "int_truediv tw 1000 = Inr kw" and q: "int_truediv tw 30000 = Inr q"
    and s: "ls_status s = usage_status (float_mul q 100)"
    using ok cap unfolding load_tab_summary_def tw_def Let_def
    by (auto split: sum.splits)
  have qv: "q = round_b64 (of_int tw / 30000)" using int_truediv_Inr [OF q] by simp
  have l80: "(of_int 80 :: rat) < float_limit" "- float_limit < (of_int 80 :: rat)"
    using small_lt_limit [of 80] by simp_all
  have l100: "(of_int 100 :: rat) < float_limit" "- float_limit < (of_int 100 :: rat)"
    using small_lt_limit [of 100] by simp_all
  consider "tw \<le> 24000" | "24001 \<le> tw" "tw \<le> 30000" | "30001 \<le> tw" by linarith
  then show ?thesis
  proof cases
    case 1
    then have "(of_int tw :: rat) \<le> of_int 24000" by (simp only: of_int_le_iff)
    then have "(of_int tw :: rat) / 30000 \<le> 4 / 5" by simp
    then have le: "q \<le> round_b64 (4 / 5)" unfolding qv by (rule round_b64_mono)
    have "\<not> float_gt (float_mul q 100) 80"
      using le _ l80(1) by (rule float_not_gt) (simp add: b64_80)
    moreover have "\<not> float_gt (float_mul q 100) 100"
      using le _ l100(1) by (rule float_not_gt) (simp add: b64_80)
    ultimately show ?thesis using 1 by (simp add: s usage_status_def tw_def)
  next
    case 2
    have "(of_int 24001 :: rat) \<le> of_int tw" using 2(1) by (simp only: of_int_le_iff)
    then have "24001 / 30000 \<le> (of_int tw :: rat) / 30000" by simp
    then have ge: "round_b64 (24001 / 30000) \<le> q" unfolding qv by (rule round_b64_mono)
    have "(of_int tw :: rat) \<le> of_int 30000" using 2(2) by (simp only: of_int_le_iff)
    then have "(of_int tw :: rat) / 30000 \<le> 1" by simp
    then have le: "q \<le> round_b64 1" unfolding qv by (rule round_b64_mono)
    have "float_gt (float_mul q 100) 80"
      using ge _ l80(2) by (rule float_is_gt) (simp add: b64_above_80)
    moreover have "\<not> float_gt (float_mul q 100) 100"
      using le _ l100(1) by (rule float_not_gt) (simp add: b64_100)
    ultimately show ?thesis using 2 by (simp add: s usage_status_def tw_def)
  next
    case 3
    have "(of_int 30001 :: rat) \<le> of_int tw" using 3 by (simp only: of_int_le_iff)
    then have "30001 / 30000 \<le> (of_int tw :: rat) / 30000" by simp
    then have ge: "round_b64 (30001 / 30000) \<le> q" unfolding qv by (rule round_b64_mono)
    have "float_gt (float_mul q 100) 100"
      using ge _ l100(2) by (rule float_is_gt) (simp add: b64_above_100)
    then show ?thesis using 3 by (simp add: s usage_status_def tw_def)
  qed
qed

lemma capacity_nonzero: "capacity st \<noteq> 0"
  by (simp add: capacity_def split: option.splits)

lemma load_tab_summary_defined:
  assumes "\<bar>total_watts (loads st)\<bar> \<le> 2 ^ 1000"
    and "\<bar>capacity st\<bar> < 10 ^ int_max_str_digits"
  shows "\<exists>s. load_tab_summary st = Inr s"
proof -
  have "int_truediv (total_watts (loads st)) 1000 =
      Inr (round_b64 (of_int (total_watts (loads st)) / of_int 1000))"
    using assms(1) by (rule int_truediv_defined) simp_all
  moreover have "int_truediv (total_watts (loads st)) (capacity st * 1000) =
      Inr (round_b64 (of_int (total_watts (loads st)) / of_int (capacity st * 1000)))"
    using assms(1) by (rule int_truediv_defined) (simp_all add: capacity_nonzero)
  ultimately show ?thesis
    by (simp add: load_tab_summary_def Let_def fmt_int_fits [OF assms(2)])
qed

lemma exact_cap30:
  "capacity st = 30 \<Longrightarrow> exact_usage_percent st = of_int (total_watts (loads st)) / 300"
  by (simp add: exact_usage_percent_def)

lemma point_defined:
  assumes "capacity st = 30" and "\<bar>total_watts (loads st)\<bar> \<le> 2 ^ 15"
  shows "\<exists>s. load_tab_summary st = Inr s"
proof -
  have "(2::int) ^ 15 \<le> 2 ^ 1000" by (rule power_increasing) simp_all
  then have "\<bar>total_watts (loads st)\<bar> \<le> 2 ^ 1000" using assms(2) by linarith
  then show ?thesis by (rule load_tab_summary_defined) (simp add: assms(1) fits_small)
qed

lemma usage_cap30:
  assumes "capacity st = 30" and "load_tab_summary st = Inr s"
  shows "ls_usage s = float_mul (round_b64 (of_int (total_watts (loads st)) / 30000)) 100"
    and "ls_status s = usage_status (ls_usage s)"
proof -
  obtain kw q where q: "int_truediv (total_watts (loads st)) 30000 = Inr q"
    and s: "ls_usage s = float_mul q 100" "ls_status s = usage_status (float_mul q 100)"
    using assms unfolding load_tab_summary_def Let_def by (auto split: sum.splits)
  have "q = round_b64 (of_int (total_watts (loads st)) / 30000)"
    using int_truediv_Inr [OF q] by simp
  then show "ls_usage s = float_mul (round_b64 (of_int (total_watts (loads st)) / 30000)) 100"
    using s(1) by simp
  show "ls_status s = usage_status (ls_usage s)" using s by simp
qed


lemma float_mul_finite:
  "\<bar>round_b64 (x * y)\<bar> \<le> 2 ^ 10 \<Longrightarrow> float_mul x y = Finite (round_b64 (x * y))"
  using small_lt_limit [of "round_b64 (x * y)"] by (simp add: float_mul_def Let_def)

lemma usage_24000: "float_mul (round_b64 (24000 / 30000)) 100 = Finite 80"
  using float_mul_finite [of "round_b64 (4 / 5)" 100] by (simp add: b64_80)

lemma usage_30000: "float_mul (round_b64 (30000 / 30000)) 100 = Finite 100"
  using float_mul_finite [of "round_b64 1" 100] by (simp add: b64_100)


lemma point_cap30:
  assumes "capacity st = 30" and "total_watts (loads st) = w" and "\<bar>w\<bar> \<le> 2 ^ 15"
  shows "\<exists>s. load_tab_summary st = Inr s \<and>
           ls_usage s = float_mul (round_b64 (of_int w / 30000)) 100 \<and>
           ls_status s = (if w \<le> 24000 then ''SAFE''
                          else if w \<le> 30000 then ''HIGH LOAD'' else ''OVERLOADED'')"
proof -
  obtain s where s: "load_tab_summary st = Inr s"
    using point_defined [OF assms(1)] assms(2,3) by auto
  have "ls_usage s = float_mul (round_b64 (of_int w / 30000)) 100"
    using usage_cap30(1) [OF assms(1) s] assms(2) by simp
  moreover have "ls_status s = (if w \<le> 24000 then ''SAFE''
      else if w \<le> 30000 then ''HIGH LOAD'' else ''OVERLOADED'')"
    using status_cap30 [OF assms(1) s] assms(2) by simp
  ultimately show ?thesis using s by blast
qed

lemma bands_exact_cap30:
  assumes "capacity st = 30" and "load_tab_summary st = Inr s"
  shows "(exact_usage_percent st \<le> 80 \<longrightarrow> ls_status s = ''SAFE'') \<and>
         (80 < exact_usage_percent st \<and> exact_usage_percent st \<le> 100 \<longrightarrow>
            ls_status s = ''HIGH LOAD'') \<and>
         (100 < exact_usage_percent st \<longrightarrow> ls_status s = ''OVERLOADED'')"
proof -
  have "exact_usage_percent st = of_int (total_watts (loads st)) / 300"
    using assms(1) by (rule exact_cap30)
  then have "exact_usage_percent st \<le> 80 \<longleftrightarrow> total_watts (loads st) \<le> 24000"
    and "exact_usage_percent st \<le> 100 \<longleftrightarrow> total_watts (loads st) \<le> 30000"
    by simp_all linarith+
  then show ?thesis using status_cap30 [OF assms] by auto
qed

lemma bands_float:
  assumes "ls_status s = usage_status (ls_usage s)"
  shows "(\<not> float_gt (ls_usage s) 80 \<longrightarrow> ls_status s = ''SAFE'') \<and>
         (float_gt (ls_usage s) 80 \<and> \<not> float_gt (ls_usage s) 100 \<longrightarrow>
            ls_status s = ''HIGH LOAD'') \<and>
         (float_gt (ls_usage s) 100 \<longrightarrow> ls_status s = ''OVERLOADED'')"
  unfolding assms by (cases "ls_usage s") (auto simp: usage_status_def float_gt_def)

subsection \<open>The three-phase 50 kW selection\<close>

lemma three_50_state:
  "run init_state [SelectPhase ''three'', SelectPower 50] =
     init_state\<lparr>selected_phase := Some ''three'', selected_power := Some 50,
       current_specs := lookup_specs (Some ''three'') (Some 50)\<rparr>"
  by (simp add: run_def select_phase_def select_power_def update_specs_def init_state_def Let_def)

lemma b64_40: "round_b64 (round_b64 (2 / 5) * 100) = 40" by code_simp
lemma b64_20: "round_b64 20 = 20" by code_simp

subsection \<open>Integer literals used below\<close>

lemma py_int_neg5: "py_int ''-5'' = Some (- 5)" by code_simp
lemma py_int_0: "py_int ''0'' = Some 0" by code_simp
lemma py_int_1: "py_int ''1'' = Some 1" by code_simp
lemma py_int_2: "py_int ''2'' = Some 2" by code_simp
lemma py_int_10: "py_int ''10'' = Some 10" by code_simp
lemma py_int_1000: "py_int ''1000'' = Some 1000" by code_simp
lemma py_int_abc: "py_int ''abc'' = None" by code_simp
lemma py_int_1p5: "py_int ''1.5'' = None" by code_simp
lemma py_int_x: "py_int ''x'' = None" by code_simp

subsection \<open>Adding and removing\<close>

lemma total_watts_append [simp]:
  "total_watts (xs @ ys) = total_watts xs + total_watts ys"
  by (simp add: total_watts_def)

lemma filter_absent: "i \<notin> id' ` set ls \<Longrightarrow> filter (\<lambda>l. id' l \<noteq> i) ls = ls"
  by (induction ls) auto

lemma load_id_mono: "load_id (run st evs) \<le> load_id (run st (evs @ evs'))"
  by (simp add: load_id_run)

subsection \<open>Sanitising the project name\<close>

lemma isspace_ord: "isspace c \<Longrightarrow> ord c < 48 \<or> ord c = 133 \<or> ord c = 160"
  by (auto simp: isspace_def)

lemma isalnum_ord: "isalnum c \<Longrightarrow> 48 \<le> ord c \<and> ord c \<noteq> 133 \<and> ord c \<noteq> 160"
  unfolding isalnum_def Let_def by auto

lemma keep_char_cases:
  "keep_char c \<longleftrightarrow> isalnum c \<or> c = CHR '' '' \<or> c = CHR ''-'' \<or> c = CHR ''_''"
  by (auto simp: keep_char_def)

lemma not_space_literals: "\<not> isspace CHR ''-''" "\<not> isspace CHR ''_''" "isspace CHR '' ''"
  by (simp_all add: isspace_def ord_def)

lemma keep_char_space: "keep_char c \<Longrightarrow> isspace c \<longleftrightarrow> c = CHR '' ''"
proof -
  assume k: "keep_char c"
  show ?thesis
  proof
    assume s: "isspace c"
    have "\<not> isalnum c" using isspace_ord [OF s] isalnum_ord [of c] by linarith
    then consider "c = CHR '' ''" | "c = CHR ''-''" | "c = CHR ''_''"
      using k by (auto simp only: keep_char_cases)
    then show "c = CHR '' ''" using s not_space_literals by cases simp_all
  next
    assume "c = CHR '' ''"
    then show "isspace c" by (simp only: not_space_literals)
  qed
qed

lemma dropWhile_cong_set: "(\<And>x. x \<in> set xs \<Longrightarrow> P x = Q x) \<Longrightarrow> dropWhile P xs = dropWhile Q xs"
  by (induction xs) auto

lemma strip_filtered:
  "strip (filter keep_char s) = strip_with (\<lambda>c. c = CHR '' '') (filter keep_char s)"
proof -
  let ?f = "filter keep_char s"
  have 1: "dropWhile isspace ?f = dropWhile (\<lambda>c. c = CHR '' '') ?f"
    by (rule dropWhile_cong_set) (simp add: keep_char_space)
  have "set (dropWhile (\<lambda>c. c = CHR '' '') ?f) \<subseteq> set ?f" by (rule set_dropWhileD [THEN subsetI])
  then have "\<And>x. x \<in> set (rev (dropWhile (\<lambda>c. c = CHR '' '') ?f)) \<Longrightarrow> keep_char x" by auto
  then have 2: "dropWhile isspace (rev (dropWhile (\<lambda>c. c = CHR '' '') ?f)) =
      dropWhile (\<lambda>c. c = CHR '' '') (rev (dropWhile (\<lambda>c. c = CHR '' '') ?f))"
    by (intro dropWhile_cong_set) (simp add: keep_char_space)
  show ?thesis by (simp add: strip_def strip_with_def 1 2)
qed

lemma set_strip_with: "set (strip_with P s) \<subseteq> set s"
proof -
  have "set (dropWhile P (rev (dropWhile P s))) \<subseteq> set (rev (dropWhile P s))"
    by (rule set_dropWhileD [THEN subsetI])
  moreover have "set (dropWhile P s) \<subseteq> set s" by (rule set_dropWhileD [THEN subsetI])
  ultimately show ?thesis by (auto simp: strip_with_def)
qed

lemma safe_name_length: "length (safe_name p) \<le> 40"
  by (simp add: safe_name_def replace_spaces_def)

lemma safe_name_chars:
  assumes "c \<in> set (safe_name p)"
  shows "isalnum c \<or> c = CHR ''-'' \<or> c = CHR ''_''"
proof -
  obtain d where d: "d \<in> set (take 40 (strip (filter keep_char p)))"
    and c: "c = (if d = CHR '' '' then CHR ''_'' else d)"
    using assms by (auto simp: safe_name_def replace_spaces_def)
  have "d \<in> set (strip (filter keep_char p))" using d by (rule in_set_takeD)
  then have "d \<in> set (filter keep_char p)"
    using set_strip_with [of isspace "filter keep_char p"] unfolding strip_def by (rule subsetD [rotated])
  then have "keep_char d" by simp
  then show ?thesis using c by (auto simp: keep_char_def)
qed

lemma strip_with_id:
  assumes "s = [] \<or> (\<not> P (hd s) \<and> \<not> P (last s))"
  shows "strip_with P s = s"
proof (cases s)
  case Nil then show ?thesis by (simp add: strip_with_def)
next
  case (Cons a as)
  then have h: "\<not> P (hd s)" "\<not> P (last s)" "s \<noteq> []" using assms by auto
  have keep: "dropWhile P xs = xs" if "xs \<noteq> []" "\<not> P (hd xs)" for xs
    using that by (cases xs) auto
  have 1: "dropWhile P s = s" using h(3,1) by (rule keep)
  have "hd (rev s) = last s" using h(3) by (simp add: hd_rev)
  then have 2: "dropWhile P (rev s) = rev s" using h(2,3) by (intro keep) simp_all
  show ?thesis by (simp add: strip_with_def 1 2)
qed

subsection \<open>Rows of the record store along a run\<close>

lemma save_report_cases:
  "save_report st env =
     (case current_specs st of
        None \<Rightarrow> st
      | Some specs \<Rightarrow>
          if pdf_generate env (pdf_path_of st env specs) (gather_data st env specs)
          then st\<lparr>db := fst (db_save_report (db st) (db_error env)
                  (make_report (gather_data st env specs) env (pdf_path_of st env specs)))\<rparr>
          else st)"
  by (simp add: save_report_def pdf_path_of_def Let_def split: option.splits)

lemma db_step_other:
  "\<not> (\<exists>env. ev = SaveReport env) \<Longrightarrow> db (step st ev) = db st"
  by (cases ev)
    (simp_all add: select_phase_def select_power_def update_specs_def reset_selection_def
      submit_cases fst_remove_load Let_def)

lemma set_db_save:
  "set (fst (db_save_report rows err report)) \<subseteq> insert report (set rows)"
  by (auto simp: db_save_report_def)

lemma db_step_rows:
  assumes "r \<in> set (db (step st ev))"
  shows "r \<in> set (db st) \<or>
    (\<exists>env specs. ev = SaveReport env \<and> current_specs st = Some specs \<and>
       pdf_generate env (pdf_path_of st env specs) (gather_data st env specs) \<and>
       r = make_report (gather_data st env specs) env (pdf_path_of st env specs))"
proof (cases "\<exists>env. ev = SaveReport env")
  case False
  then have "db (step st ev) = db st" by (rule db_step_other)
  then show ?thesis using assms by simp
next
  case True
  then obtain env where ev: "ev = SaveReport env" ..
  show ?thesis
  proof (cases "current_specs st")
    case None
    then show ?thesis using assms by (simp add: ev save_report_cases)
  next
    case (Some specs)
    show ?thesis
    proof (cases "pdf_generate env (pdf_path_of st env specs) (gather_data st env specs)")
      case False
      then show ?thesis using assms Some by (simp add: ev save_report_cases)
    next
      case True
      then have "r \<in> insert (make_report (gather_data st env specs) env (pdf_path_of st env specs))
          (set (db st))"
        using assms Some set_db_save by (auto simp: ev save_report_cases)
      then show ?thesis using True Some ev by auto
    qed
  qed
qed

lemma run_Cons: "run st (ev # evs) = run (step st ev) evs"
  by (simp add: run_def)

lemma rendered_paths:
  "sr_pdf_path ` set (db (run st evs)) \<subseteq> sr_pdf_path ` set (db st) \<union> set (rendered st evs)"
proof (induction evs arbitrary: st)
  case Nil
  then show ?case by (simp add: run_def)
next
  case (Cons ev evs)
  have "sr_pdf_path ` set (db (step st ev)) \<subseteq>
      sr_pdf_path ` set (db st) \<union> set (rendered st [ev])"
  proof
    fix p assume "p \<in> sr_pdf_path ` set (db (step st ev))"
    then obtain r where r: "r \<in> set (db (step st ev))" and p: "p = sr_pdf_path r" by auto
    from db_step_rows [OF r] show "p \<in> sr_pdf_path ` set (db st) \<union> set (rendered st [ev])"
      by (auto simp: p make_report_def)
  qed
  moreover have "set (rendered st (ev # evs)) =
      set (rendered st [ev]) \<union> set (rendered (step st ev) evs)"
    by simp
  ultimately show ?case using Cons.IH [of "step st ev"] unfolding run_Cons by blast
qed

lemma status_rows:
  "(\<forall>r \<in> set (db st). sr_status r = ''completed'') \<Longrightarrow>
   (\<forall>r \<in> set (db (run st evs)). sr_status r = ''completed'')"
proof (induction evs arbitrary: st)
  case Nil
  then show ?case by (simp add: run_def)
next
  case (Cons ev evs)
  have "\<forall>r \<in> set (db (step st ev)). sr_status r = ''completed''"
  proof
    fix r assume "r \<in> set (db (step st ev))"
    from db_step_rows [OF this] show "sr_status r = ''completed''"
      using Cons.prems by (auto simp: make_report_def)
  qed
  then show ?case unfolding run_Cons by (rule Cons.IH)
qed

lemma set_db_get_reports: "set (db_get_reports rows err limit) \<subseteq> set rows"
proof -
  have "set (take n (rev (sort_key sr_updated_at (rev rows)))) \<subseteq> set rows" for n
    using set_take_subset [of n "rev (sort_key sr_updated_at (rev rows))"] by simp
  then show ?thesis by (auto simp: db_get_reports_def Let_def)
qed

subsection \<open>Sample runs\<close>

lemma single_30_state:
  "run init_state [SelectPhase ''single'', SelectPower 30] =
     init_state\<lparr>selected_phase := Some ''single'', selected_power := Some 30,
       current_specs := lookup_specs (Some ''single'') (Some 30)\<rparr>"
  by (simp add: run_def select_phase_def select_power_def update_specs_def init_state_def Let_def)

lemma single_30_specs: "lookup_specs (Some ''single'') (Some 30) \<noteq> None"
  by (simp add: lookup_specs_def dict_get_def SINGLE_PHASE_SPECS_def)

lemma single_30_db: "db (run init_state [SelectPhase ''single'', SelectPower 30]) = []"
  unfolding single_30_state by (simp add: init_state_def)

lemma ct_room_ends:
  "hd (filter keep_char ''CT room #2'') \<noteq> CHR '' '' \<and>
   last (filter keep_char ''CT room #2'') \<noteq> CHR '' ''"
  by code_simp

lemma ct_room_filename:
  "report_filename
     (gather_data
        (run init_state
           [SelectPhase ''three'', SelectPower 50,
            SetProjectInfo ((info init_state)\<lparr>project_name := ''CT room #2''\<rparr>)])
        sample_env (mkWiringSpecs [] [] [] [] [] [] [] [] []))
     (now_stamp sample_env) = ''CT_room_2_three_50kW_20240305_141500.pdf''"
  by code_simp

subsection \<open>Rounding and the sign\<close>

lemma round_b64_abs: "\<bar>round_b64 x\<bar> = round_b64 \<bar>x\<bar>"
proof (cases "0 \<le> x")
  case True
  then show ?thesis using round_b64_nonneg [of x] by simp
next
  case False
  then have "0 \<le> - x" by simp
  then have "0 \<le> round_b64 (- x)" by (rule round_b64_nonneg)
  then show ?thesis using False by (simp add: round_b64_uminus)
qed

subsection \<open>Long integer literals\<close>

lemma parse_digits_zeros:
  "parse_digits acc (replicate n CHR ''0'') = Some (acc * 10 ^ n)"
  by (induction n arbitrary: acc) (simp_all add: is_decimal_def digit_value_def ord_def)

lemma py_int_power10:
  assumes "n < int_max_str_digits"
  shows "py_int (CHR ''1'' # replicate n CHR ''0'') = Some (10 ^ n)"
proof -
  let ?s = "CHR ''1'' # replicate n CHR ''0''"
  have l: "last ?s = CHR ''1'' \<or> last ?s = CHR ''0''" by simp
  have ns: "\<not> int_space CHR ''1''" "\<not> int_space CHR ''0''"
    by (simp_all add: int_space_def ord_def)
  have s: "strip_with int_space ?s = ?s"
    by (rule strip_with_id) (use l ns in auto)
  have d: "is_decimal CHR ''1''" "is_decimal CHR ''0''" "digit_value CHR ''1'' = 1"
    by (simp_all add: is_decimal_def digit_value_def ord_def)
  have len: "length (filter is_decimal ?s) = Suc n" using d by simp
  have "parse_unsigned ?s = Some (10 ^ n)"
    using assms by (simp add: parse_unsigned_def d parse_digits_zeros len del: filter.simps)
  then show ?thesis unfolding py_int_def s by (simp add: Let_def)
qed

lemma filter_dropWhile_disjoint:
  "(\<And>x. Q x \<Longrightarrow> \<not> P x) \<Longrightarrow> filter P (dropWhile Q xs) = filter P xs"
  by (induction xs) auto

lemma decimal_not_space: "int_space c \<Longrightarrow> \<not> is_decimal c"
  by (auto simp: int_space_def is_decimal_def)

lemma filter_decimal_strip: "filter is_decimal (strip_with int_space s) = filter is_decimal s"
proof -
  have "filter is_decimal (rev (dropWhile int_space (rev (dropWhile int_space s)))) =
      rev (filter is_decimal (dropWhile int_space (rev (dropWhile int_space s))))"
    by (simp add: rev_filter)
  also have "\<dots> = rev (filter is_decimal (rev (dropWhile int_space s)))"
    by (simp only: filter_dropWhile_disjoint [of int_space is_decimal, OF decimal_not_space])
  also have "\<dots> = filter is_decimal (dropWhile int_space s)" by (simp add: rev_filter)
  also have "\<dots> = filter is_decimal s"
    by (simp only: filter_dropWhile_disjoint [of int_space is_decimal, OF decimal_not_space])
  finally show ?thesis by (simp add: strip_with_def)
qed

lemma parse_unsigned_too_long:
  "int_max_str_digits < length (filter is_decimal s) \<Longrightarrow> parse_unsigned s = None"
  by (cases s) (auto simp: parse_unsigned_def split: option.splits)

lemma py_int_too_long:
  assumes "int_max_str_digits < length (filter is_decimal s)"
  shows "py_int s = None"
proof -
  let ?t = "strip_with int_space s"
  have t: "int_max_str_digits < length (filter is_decimal ?t)"
    using assms by (simp only: filter_decimal_strip)
  have sign: "\<not> is_decimal CHR ''-''" "\<not> is_decimal CHR ''+''"
    by (simp_all add: is_decimal_def ord_def)
  have tl: "filter is_decimal (tl ?t) = filter is_decimal ?t"
    if "?t \<noteq> []" "hd ?t = CHR ''-'' \<or> hd ?t = CHR ''+''"
    using that sign by (cases ?t) auto
  have "parse_unsigned ?t = None" using t by (rule parse_unsigned_too_long)
  moreover have "parse_unsigned (tl ?t) = None"
    if "?t \<noteq> []" "hd ?t = CHR ''-'' \<or> hd ?t = CHR ''+''"
    using t tl [OF that] by (intro parse_unsigned_too_long) simp
  ultimately show ?thesis by (auto simp: py_int_def Let_def)
qed

subsection \<open>The largest float and the first quotient that is out of range\<close>

lemma rhe_below_half:
  assumes "t < of_int n - 1 / 2"
  shows "round_half_even t \<le> n - 1"
proof -
  have "t < of_int n" using assms by simp
  then have f: "\<lfloor>t\<rfloor> \<le> n - 1" by (simp add: floor_less_iff)
  show ?thesis
  proof (cases "\<lfloor>t\<rfloor> = n - 1")
    case True
    then have "t - of_int \<lfloor>t\<rfloor> < 1 / 2" using assms by simp
    then show ?thesis using True by (simp add: round_half_even_def Let_def)
  next
    case False
    then have "\<lfloor>t\<rfloor> + 1 \<le> n - 1" using f by simp
    then show ?thesis using rhe_le_floor1 [of t] by linarith
  qed
qed

lemma rhe_half_odd:
  assumes "odd f"
  shows "round_half_even (of_int f + 1 / 2) = f + 1"
proof -
  have "\<lfloor>(of_int f :: rat) + 1 / 2\<rfloor> = f" by (rule floor_unique) simp_all
  then show ?thesis using assms by (simp add: round_half_even_def Let_def)
qed

lemma pow2_parts:
  fixes k :: int
  defines "p \<equiv> power_int (2::rat) (k - 53)"
  shows "0 < p" and "power_int 2 k = 2 ^ 53 * p" and "power_int 2 (k - 1) = 2 ^ 52 * p"
    and "power_int 2 (k - 54) = p / 2"
proof -
  show "0 < p" by (simp add: p_def)
  have "power_int (2::rat) (53 + (k - 53)) = power_int 2 53 * power_int 2 (k - 53)"
    by (rule power_int_add) simp
  then show "power_int 2 k = 2 ^ 53 * p" by (simp add: p_def)
  have "power_int (2::rat) (52 + (k - 53)) = power_int 2 52 * power_int 2 (k - 53)"
    by (rule power_int_add) simp
  then show "power_int 2 (k - 1) = 2 ^ 52 * p" by (simp add: p_def)
  have "power_int (2::rat) (- 1 + (k - 53)) = power_int 2 (- 1) * power_int 2 (k - 53)"
    by (rule power_int_add) simp
  then show "power_int 2 (k - 54) = p / 2" by (simp add: p_def power_int_minus)
qed

lemma round_b64_top:
  assumes "power_int 2 (k - 1) \<le> x" and "x < power_int 2 k" and "- 1021 \<le> k"
  shows "round_b64 x =
     of_int (round_half_even (x / power_int 2 (k - 53))) * power_int 2 (k - 53)"
proof -
  have pos: "(0::rat) < power_int 2 (k - 1)" by simp
  then have x: "0 < x" using assms(1) by linarith
  have "ilog2 x = k - 1"
    using assms(1,2) x by (intro ilog2_unique) simp_all
  moreover have "max (k - 1 - 52) (- 1074) = k - 53" using assms(3) by simp
  ultimately show ?thesis using x by (simp add: round_b64_def Let_def)
qed

lemma round_b64_tie_up:
  assumes "- 1021 \<le> k"
  shows "round_b64 (power_int 2 k - power_int 2 (k - 54)) = power_int 2 k"
proof -
  define p where "p = power_int (2::rat) (k - 53)"
  note pp = pow2_parts [of k, folded p_def]
  let ?x = "power_int 2 k - power_int (2::rat) (k - 54)"
  have x: "?x = (2 ^ 53 - 1 / 2) * p" unfolding pp(2,4) by (simp add: algebra_simps)
  have lo: "power_int 2 (k - 1) \<le> ?x" unfolding x pp(3) using pp(1) by simp
  have hi: "?x < power_int 2 k" unfolding x pp(2) using pp(1) by simp
  have "?x / p = 2 ^ 53 - 1 / 2" unfolding x using pp(1) by simp
  also have "\<dots> = of_int (2 ^ 53 - 1) + 1 / 2" by simp
  finally have eq: "?x / p = of_int (2 ^ 53 - 1) + 1 / 2" .
  have "odd ((2::int) ^ 53 - 1)" by simp
  then have "round_half_even (of_int (2 ^ 53 - 1) + 1 / 2) = (2 ^ 53 - 1) + 1"
    by (rule rhe_half_odd)
  also have "\<dots> = 2 ^ 53" by simp
  finally have "round_half_even (?x / p) = 2 ^ 53" by (subst eq)
  then have "round_b64 ?x = of_int (2 ^ 53) * p"
    using round_b64_top [OF lo hi assms] by (simp only: p_def)
  then show ?thesis unfolding pp(2) by simp
qed

lemma round_b64_below_tie:
  assumes "- 1021 \<le> k" and "0 \<le> x" and "x < power_int 2 k - power_int 2 (k - 54)"
  shows "round_b64 x < power_int 2 k"
proof (cases "x < power_int 2 (k - 1)")
  case True
  then have "round_b64 x \<le> round_b64 (power_int 2 (k - 1))"
    by (intro round_b64_mono) simp
  also have "\<dots> = power_int 2 (k - 1)" using assms(1) by (intro round_b64_power_int) simp
  also have "\<dots> < power_int 2 k" by (rule power_int_strict_increasing) simp_all
  finally show ?thesis .
next
  case False
  define p where "p = power_int (2::rat) (k - 53)"
  note pp = pow2_parts [of k, folded p_def]
  have lo: "power_int 2 (k - 1) \<le> x" using False by simp
  have "x < (2 ^ 53 - 1 / 2) * p" using assms(3) unfolding pp(2,4) by (simp add: algebra_simps)
  then have t: "x / p < of_int (2 ^ 53) - 1 / 2" using pp(1) by (simp add: pos_divide_less_eq)
  have hi: "x < power_int 2 k" using assms(3) pp(1) unfolding pp(2,4) by simp
  have "round_half_even (x / p) \<le> 2 ^ 53 - 1" using t by (rule rhe_below_half)
  then have "(of_int (round_half_even (x / p)) :: rat) \<le> of_int (2 ^ 53 - 1)"
    by (simp only: of_int_le_iff)
  then have "of_int (round_half_even (x / p)) * p \<le> of_int (2 ^ 53 - 1) * p"
    using pp(1) by (intro mult_right_mono) simp_all
  also have "\<dots> < 2 ^ 53 * p" using pp(1) by simp
  finally show ?thesis
    using round_b64_top [OF lo hi assms(1)] unfolding pp(2) by (simp only: p_def)
qed

lemma float_limit_power_int: "float_limit = power_int 2 1024"
  by (simp add: float_limit_def)

lemma round_b64_in_range:
  "\<bar>round_b64 x\<bar> < float_limit \<longleftrightarrow> \<bar>x\<bar> < float_limit - power_int 2 970"
proof
  assume "\<bar>x\<bar> < float_limit - power_int 2 970"
  then have "\<bar>x\<bar> < power_int 2 1024 - power_int 2 (1024 - 54)"
    by (simp only: float_limit_power_int) simp
  then have "round_b64 \<bar>x\<bar> < power_int 2 1024"
    by (intro round_b64_below_tie) simp_all
  then show "\<bar>round_b64 x\<bar> < float_limit"
    by (simp only: round_b64_abs float_limit_power_int)
next
  assume r: "\<bar>round_b64 x\<bar> < float_limit"
  show "\<bar>x\<bar> < float_limit - power_int 2 970"
  proof (rule ccontr)
    assume "\<not> \<bar>x\<bar> < float_limit - power_int 2 970"
    then have "power_int 2 1024 - power_int 2 (1024 - 54) \<le> \<bar>x\<bar>"
      by (simp only: float_limit_power_int not_less) simp
    then have "round_b64 (power_int 2 1024 - power_int 2 (1024 - 54)) \<le> round_b64 \<bar>x\<bar>"
      by (rule round_b64_mono)
    moreover have "round_b64 (power_int 2 1024 - power_int 2 (1024 - 54)) = power_int 2 1024"
      by (rule round_b64_tie_up) simp
    ultimately have "float_limit \<le> \<bar>round_b64 x\<bar>"
      by (simp only: round_b64_abs float_limit_power_int)
    then show False using r by simp
  qed
qed

lemma quotient_lt_iff:
  assumes "b \<noteq> 0"
  shows "\<bar>(of_int a :: rat) / of_int b\<bar> < of_int m \<longleftrightarrow> \<bar>a\<bar> < \<bar>b\<bar> * m"
proof -
  have b: "(0::rat) < of_int \<bar>b\<bar>" using assms by simp
  have "\<bar>(of_int a :: rat) / of_int b\<bar> = of_int \<bar>a\<bar> / of_int \<bar>b\<bar>" by simp
  also have "\<dots> < of_int m \<longleftrightarrow> (of_int \<bar>a\<bar> :: rat) < of_int m * of_int \<bar>b\<bar>"
    using b by (rule pos_divide_less_eq)
  also have "(of_int m :: rat) * of_int \<bar>b\<bar> = of_int (\<bar>b\<bar> * m)"
    by (simp only: of_int_mult mult.commute)
  also have "(of_int \<bar>a\<bar> :: rat) < of_int (\<bar>b\<bar> * m) \<longleftrightarrow> \<bar>a\<bar> < \<bar>b\<bar> * m"
    by (rule of_int_less_iff)
  finally show ?thesis .
qed

lemma pow_diff_of_int: "(2::rat) ^ i - power_int 2 (int j) = of_int (2 ^ i - 2 ^ j)"
  by simp

lemma limit_diff: "float_limit - power_int 2 970 = of_int (2 ^ 1024 - 2 ^ 970)"
  using pow_diff_of_int [of 1024 970] by (simp only: float_limit_def of_nat_numeral)

lemma int_truediv_range:
  assumes "b \<noteq> 0"
  shows "\<bar>a\<bar> < \<bar>b\<bar> * (2 ^ 1024 - 2 ^ 970) \<Longrightarrow>
           int_truediv a b = Inr (round_b64 (of_int a / of_int b))"
    and "\<bar>b\<bar> * (2 ^ 1024 - 2 ^ 970) \<le> \<bar>a\<bar> \<Longrightarrow> int_truediv a b = Inl OverflowError"
proof -
  define m :: int where "m = 2 ^ 1024 - 2 ^ 970"
  have r: "\<bar>round_b64 (of_int a / of_int b)\<bar> < float_limit \<longleftrightarrow> \<bar>a\<bar> < \<bar>b\<bar> * m"
    unfolding round_b64_in_range limit_diff m_def [symmetric] using assms by (rule quotient_lt_iff)
  { assume "\<bar>a\<bar> < \<bar>b\<bar> * (2 ^ 1024 - 2 ^ 970)"
    then have "\<bar>a\<bar> < \<bar>b\<bar> * m" by (simp only: m_def)
    then have "\<bar>round_b64 (of_int a / of_int b)\<bar> < float_limit" by (simp only: r)
    then show "int_truediv a b = Inr (round_b64 (of_int a / of_int b))"
      using assms by (simp add: int_truediv_def Let_def) }
  { assume "\<bar>b\<bar> * (2 ^ 1024 - 2 ^ 970) \<le> \<bar>a\<bar>"
    then have "\<not> \<bar>a\<bar> < \<bar>b\<bar> * m" by (simp only: m_def not_less)
    then have "\<not> \<bar>round_b64 (of_int a / of_int b)\<bar> < float_limit" by (simp only: r not_False_eq_True)
    then show "int_truediv a b = Inl OverflowError"
      using assms by (simp add: int_truediv_def Let_def) }
qed

lemma load_tab_summary_range:
  shows "\<bar>total_watts (loads st)\<bar> < 1000 * (2 ^ 1024 - 2 ^ 970) \<Longrightarrow>
           \<bar>capacity st\<bar> < 10 ^ int_max_str_digits \<Longrightarrow> \<exists>s. load_tab_summary st = Inr s"
    and "\<bar>total_watts (loads st)\<bar> < 1000 * (2 ^ 1024 - 2 ^ 970) \<Longrightarrow>
           10 ^ int_max_str_digits \<le> \<bar>capacity st\<bar> \<Longrightarrow> load_tab_summary st = Inl ValueError"
    and "1000 * (2 ^ 1024 - 2 ^ 970) \<le> \<bar>total_watts (loads st)\<bar> \<Longrightarrow>
           load_tab_summary st = Inl OverflowError"
proof -
  define m :: int where "m = 2 ^ 1024 - 2 ^ 970"
  define tw where "tw = total_watts (loads st)"
  define c where "c = capacity st"
  have "(2::int) ^ 970 < 2 ^ 1024" by (rule power_strict_increasing) simp_all
  then have m: "0 \<le> m" unfolding m_def by (simp only: diff_ge_0_iff_ge less_imp_le)
  have c: "c \<noteq> 0" unfolding c_def by (rule capacity_nonzero)
  note t1 = int_truediv_range [of 1000 tw, folded m_def]
  note t2 = int_truediv_range [of "c * 1000" tw, folded m_def]
  { assume "1000 * (2 ^ 1024 - 2 ^ 970) \<le> \<bar>total_watts (loads st)\<bar>"
    then have "\<bar>1000\<bar> * m \<le> \<bar>tw\<bar>" unfolding m_def tw_def by (simp only: abs_numeral)
    with _ have "int_truediv tw 1000 = Inl OverflowError" by (rule t1(2)) simp
    then show "load_tab_summary st = Inl OverflowError"
      by (simp add: load_tab_summary_def Let_def tw_def) }
  { assume "\<bar>total_watts (loads st)\<bar> < 1000 * (2 ^ 1024 - 2 ^ 970)"
    then have a: "\<bar>tw\<bar> < 1000 * m" unfolding m_def tw_def .
    then have "\<bar>tw\<bar> < \<bar>1000\<bar> * m" by simp
    with _ have kw: "int_truediv tw 1000 = Inr (round_b64 (of_int tw / of_int 1000))"
      by (rule t1(1)) simp
    have "1000 \<le> \<bar>c * 1000\<bar>" using c by (simp add: abs_mult)
    then have "1000 * m \<le> \<bar>c * 1000\<bar> * m" using m by (rule mult_right_mono)
    then have "\<bar>tw\<bar> < \<bar>c * 1000\<bar> * m" using a by (rule less_le_trans [rotated])
    with _ have q: "int_truediv tw (c * 1000) = Inr (round_b64 (of_int tw / of_int (c * 1000)))"
      by (rule t2(1)) (use c in simp)
    { assume "\<bar>capacity st\<bar> < 10 ^ int_max_str_digits"
      then show "\<exists>s. load_tab_summary st = Inr s"
        using kw q by (simp add: load_tab_summary_def Let_def tw_def c_def fmt_int_fits) }
    { assume "10 ^ int_max_str_digits \<le> \<bar>capacity st\<bar>"
      then show "load_tab_summary st = Inl ValueError"
        using kw q by (simp add: load_tab_summary_def Let_def tw_def c_def fmt_int_long) } }
qed

subsection \<open>Ledgers that can and cannot be shown\<close>

lemma default_loads_fit:
  "\<forall>l \<in> set DEFAULT_LOADS. \<bar>watts l * quantity l\<bar> < 10 ^ int_max_str_digits"
  by (simp add: DEFAULT_LOADS_def fits_small)

lemma load_tab_summary_small:
  assumes "\<bar>total_watts (loads st)\<bar> \<le> 2 ^ 15" and "capacity st = 30"
  shows "\<exists>s. load_tab_summary st = Inr s"
  using assms by (rule point_defined [rotated])

lemma switch_tab_load_None:
  assumes "\<forall>l \<in> set (loads st). \<bar>watts l * quantity l\<bar> < 10 ^ int_max_str_digits"
    and "\<exists>s. load_tab_summary st = Inr s"
  shows "switch_tab_load st = None"
  using assms(2) by (auto simp: switch_tab_load_def build_load_tab_fits [OF assms(1)])

lemma switch_tab_load_overflow:
  assumes "\<forall>l \<in> set (loads st). \<bar>watts l * quantity l\<bar> < 10 ^ int_max_str_digits"
    and "1000 * (2 ^ 1024 - 2 ^ 970) \<le> \<bar>total_watts (loads st)\<bar>"
  shows "build_load_tab st = Inl OverflowError" and "switch_tab_load st = Some OverflowError"
proof -
  have "load_tab_summary st = Inl OverflowError"
    using assms(2) by (rule load_tab_summary_range(3))
  then show "build_load_tab st = Inl OverflowError"
    by (simp only: build_load_tab_fits [OF assms(1)])
  then show "switch_tab_load st = Some OverflowError" by (simp add: switch_tab_load_def)
qed

lemma not_fits_long:
  "\<not> (\<forall>l \<in> set ls. \<bar>watts l * quantity l\<bar> < 10 ^ int_max_str_digits) \<longleftrightarrow>
     (\<exists>l \<in> set ls. 10 ^ int_max_str_digits \<le> \<bar>watts l * quantity l\<bar>)"
  by (simp only: ball_simps not_less)

lemma build_load_tab_Inr_iff:
  "(\<exists>s. build_load_tab st = Inr s) \<longleftrightarrow>
     (\<forall>l \<in> set (loads st). \<bar>watts l * quantity l\<bar> < 10 ^ int_max_str_digits) \<and>
     \<bar>total_watts (loads st)\<bar> < 1000 * (2 ^ 1024 - 2 ^ 970) \<and>
     \<bar>capacity st\<bar> < 10 ^ int_max_str_digits"
proof (cases "\<forall>l \<in> set (loads st). \<bar>watts l * quantity l\<bar> < 10 ^ int_max_str_digits")
  case fit: True
  show ?thesis
  proof (cases "\<bar>total_watts (loads st)\<bar> < 1000 * (2 ^ 1024 - 2 ^ 970)")
    case range: True
    show ?thesis
    proof (cases "\<bar>capacity st\<bar> < 10 ^ int_max_str_digits")
      case True
      with range have "\<exists>s. load_tab_summary st = Inr s" by (rule load_tab_summary_range(1))
      then show ?thesis using fit range True by (simp only: build_load_tab_fits [OF fit] simp_thms)
    next
      case False
      then have "10 ^ int_max_str_digits \<le> \<bar>capacity st\<bar>" by (simp only: not_less)
      with range have "load_tab_summary st = Inl ValueError" by (rule load_tab_summary_range(2))
      then have "\<not> (\<exists>s. build_load_tab st = Inr s)"
        by (simp only: build_load_tab_fits [OF fit]) simp
      then show ?thesis using False by blast
    qed
  next
    case False
    then have "1000 * (2 ^ 1024 - 2 ^ 970) \<le> \<bar>total_watts (loads st)\<bar>" by (simp only: not_less)
    then have "load_tab_summary st = Inl OverflowError" by (rule load_tab_summary_range(3))
    then have "\<not> (\<exists>s. build_load_tab st = Inr s)"
      by (simp only: build_load_tab_fits [OF fit]) simp
    then show ?thesis using False by blast
  qed
next
  case False
  then have "build_load_tab st = Inl ValueError"
    unfolding not_fits_long by (rule build_load_tab_long)
  then have "\<not> (\<exists>s. build_load_tab st = Inr s)" by simp
  then show ?thesis using False by blast
qed

lemma switch_tab_load_None_iff:
  "switch_tab_load st = None \<longleftrightarrow> (\<exists>s. build_load_tab st = Inr s)"
  by (cases "build_load_tab st") (simp_all add: switch_tab_load_def)

lemma switch_tab_load_long:
  assumes "\<exists>l \<in> set (loads st). 10 ^ int_max_str_digits \<le> \<bar>watts l * quantity l\<bar>"
  shows "switch_tab_load st = Some ValueError"
  using build_load_tab_long [OF assms] by (simp add: switch_tab_load_def)

subsection \<open>A ledger with a load of \<open>10^400\<close> W\<close>

lemma magnet_run:
  assumes "n < int_max_str_digits"
  shows "run init_state [AddLoad ''Magnet'' (CHR ''1'' # replicate n CHR ''0'') ''1''] =
     init_state\<lparr>loads := DEFAULT_LOADS @
                  [\<lparr>id' = 4, name = ''Magnet'', watts = 10 ^ n, quantity = 1\<rparr>],
                load_id := 5\<rparr>"
  by (simp add: run_def submit_cases int_or_def py_int_power10 [OF assms] py_int_1 init_state_def)

lemma magnet_fits:
  assumes "n < int_max_str_digits"
  shows "\<forall>l \<in> set (DEFAULT_LOADS @ [\<lparr>id' = 4, name = ''Magnet'', watts = 10 ^ n, quantity = 1\<rparr>]).
           \<bar>watts l * quantity l\<bar> < 10 ^ int_max_str_digits"
proof -
  have "(10::int) ^ n < 10 ^ int_max_str_digits"
    using assms by (intro power_strict_increasing) simp_all
  then show ?thesis using default_loads_fit by simp
qed

lemma pow2_diff_le: "(2::int) ^ i - 2 ^ j \<le> 2 ^ i"
  by simp

lemma magnet_large:
  assumes "400 \<le> n"
  shows "1000 * (2 ^ 1024 - 2 ^ 970) \<le>
     \<bar>total_watts (DEFAULT_LOADS @ [\<lparr>id' = 4, name = ''Magnet'', watts = 10 ^ n, quantity = 1\<rparr>])\<bar>"
proof -
  have "1000 * ((2::int) ^ 1024 - 2 ^ 970) \<le> 1000 * 2 ^ 1024"
    using pow2_diff_le [of 1024 970] by (rule mult_left_mono) simp
  also have "\<dots> = 2 ^ 1024 * 1000" by (rule mult.commute)
  also have "(2::int) ^ 1024 * 1000 \<le> 2 ^ 1024 * 2 ^ 10" by (intro mult_left_mono) simp_all
  also have "\<dots> = 2 ^ (1024 + 10)" by (rule power_add [symmetric])
  also have "\<dots> \<le> 2 ^ (3 * 400)" by (rule power_increasing) simp_all
  also have "\<dots> = (2 ^ 3) ^ 400" by (rule power_mult)
  also have "\<dots> \<le> 10 ^ 400" by (rule power_mono) simp_all
  also have "\<dots> \<le> 10 ^ n" using assms by (intro power_increasing) simp_all
  finally have "1000 * ((2::int) ^ 1024 - 2 ^ 970) \<le> 10 ^ n" .
  moreover have "total_watts (DEFAULT_LOADS @ [\<lparr>id' = 4, name = ''Magnet'', watts = 10 ^ n, quantity = 1\<rparr>])
      = 20000 + 10 ^ n"
    by (simp add: total_watts_def DEFAULT_LOADS_def)
  moreover have "(0::int) \<le> 10 ^ n" by simp
  ultimately show ?thesis by linarith
qed

lemma loads_of_ledger: "loads (st\<lparr>loads := ls, load_id := k\<rparr>) = ls"
  by simp

lemma capacity_of_ledger: "capacity (init_state\<lparr>loads := ls, load_id := k\<rparr>) = 30"
  by (simp add: capacity_def init_state_def)

lemma magnet_400:
  shows "run init_state [AddLoad ''Magnet'' (CHR ''1'' # replicate 400 CHR ''0'') ''1''] =
      init_state\<lparr>loads := DEFAULT_LOADS @
                   [\<lparr>id' = 4, name = ''Magnet'', watts = 10 ^ 400, quantity = 1\<rparr>],
                 load_id := 5\<rparr>"
    and "\<forall>l \<in> set (loads (init_state\<lparr>loads := DEFAULT_LOADS @
                   [\<lparr>id' = 4, name = ''Magnet'', watts = 10 ^ 400, quantity = 1\<rparr>],
                 load_id := 5\<rparr>)). \<bar>watts l * quantity l\<bar> < 10 ^ int_max_str_digits"
    and "1000 * (2 ^ 1024 - 2 ^ 970) \<le> \<bar>total_watts (loads (init_state\<lparr>loads := DEFAULT_LOADS @
                   [\<lparr>id' = 4, name = ''Magnet'', watts = 10 ^ 400, quantity = 1\<rparr>],
                 load_id := 5\<rparr>))\<bar>"
    and "build_load_tab (init_state\<lparr>loads := DEFAULT_LOADS @
                   [\<lparr>id' = 4, name = ''Magnet'', watts = 10 ^ 400, quantity = 1\<rparr>],
                 load_id := 5\<rparr>) = Inl OverflowError"
    and "switch_tab_load (init_state\<lparr>loads := DEFAULT_LOADS @
                   [\<lparr>id' = 4, name = ''Magnet'', watts = 10 ^ 400, quantity = 1\<rparr>],
                 load_id := 5\<rparr>) = Some OverflowError"
proof -
  let ?big = "init_state\<lparr>loads := DEFAULT_LOADS @
                  [\<lparr>id' = 4, name = ''Magnet'', watts = 10 ^ 400, quantity = 1\<rparr>],
                load_id := 5\<rparr>"
  have n: "(400::nat) < int_max_str_digits" by (simp add: int_max_str_digits_def)
  show "run init_state [AddLoad ''Magnet'' (CHR ''1'' # replicate 400 CHR ''0'') ''1''] = ?big"
    using n by (rule magnet_run)
  have l: "loads ?big =
      DEFAULT_LOADS @ [\<lparr>id' = 4, name = ''Magnet'', watts = 10 ^ 400, quantity = 1\<rparr>]"
    by (rule loads_of_ledger)
  show f: "\<forall>l \<in> set (loads ?big). \<bar>watts l * quantity l\<bar> < 10 ^ int_max_str_digits"
    unfolding l using n by (rule magnet_fits)
  show g: "1000 * (2 ^ 1024 - 2 ^ 970) \<le> \<bar>total_watts (loads ?big)\<bar>"
    unfolding l by (rule magnet_large) (rule order_refl)
  show "build_load_tab ?big = Inl OverflowError"
    using f g by (rule switch_tab_load_overflow(1))
  show "switch_tab_load ?big = Some OverflowError"
    using f g by (rule switch_tab_load_overflow(2))
qed

lemma magnet_percent:
  assumes "5 \<le> n"
  shows "100 < exact_usage_percent (init_state\<lparr>loads := DEFAULT_LOADS @
       [\<lparr>id' = 4, name = ''Magnet'', watts = 10 ^ n, quantity = 1\<rparr>], load_id := 5\<rparr>)"
proof -
  let ?ls = "DEFAULT_LOADS @ [\<lparr>id' = 4, name = ''Magnet'', watts = 10 ^ n, quantity = 1\<rparr>]"
  have "(10::int) ^ 5 \<le> 10 ^ n" using assms by (intro power_increasing) simp_all
  moreover have "total_watts ?ls = 20000 + 10 ^ n"
    by (simp add: total_watts_def DEFAULT_LOADS_def)
  ultimately have "30000 < total_watts ?ls" by simp
  then have "(of_int 30000 :: rat) < of_int (total_watts ?ls)" by (simp only: of_int_less_iff)
  then have "(100::rat) < of_int (total_watts ?ls) / 300" by simp
  then show ?thesis
    by (simp only: exact_cap30 [OF capacity_of_ledger] loads_of_ledger)
qed

subsection \<open>Adding and removing with the view rebuilt\<close>

lemma submit_rejected:
  "int_or w 0 = None \<or> int_or q 1 = None \<Longrightarrow> submit st n w q = (st, None)"
  by (auto simp: submit_def split: option.splits)

lemma snd_submit: "snd (submit st n w q) \<noteq> Some ValueError"
  by (auto simp: submit_def Let_def split: option.splits py_error.splits)

lemma heater_state_shown:
  "switch_tab_load (init_state\<lparr>loads := DEFAULT_LOADS @ [\<lparr>id' = 4, name = n, watts = w, quantity = q\<rparr>],
      load_id := 5\<rparr>) = None"
  if "\<bar>w * q\<bar> < 10 ^ 3" for n w q
proof -
  let ?st = "init_state\<lparr>loads := DEFAULT_LOADS @ [\<lparr>id' = 4, name = n, watts = w, quantity = q\<rparr>],
      load_id := 5\<rparr>"
  have l: "loads ?st = DEFAULT_LOADS @ [\<lparr>id' = 4, name = n, watts = w, quantity = q\<rparr>]"
    by (rule loads_of_ledger)
  have "\<bar>w * q\<bar> < 10 ^ 5" using that by simp
  then have "\<bar>w * q\<bar> < 10 ^ int_max_str_digits" by (rule fits_small)
  then have f: "\<forall>l \<in> set (loads ?st). \<bar>watts l * quantity l\<bar> < 10 ^ int_max_str_digits"
    unfolding l using default_loads_fit by simp
  have "total_watts (loads ?st) = 20000 + w * q"
    unfolding l by (simp add: total_watts_def DEFAULT_LOADS_def)
  then have "\<bar>total_watts (loads ?st)\<bar> \<le> 2 ^ 15" using that by simp
  then have "\<exists>s. load_tab_summary ?st = Inr s"
    by (rule load_tab_summary_small) (rule capacity_of_ledger)
  with f show ?thesis by (rule switch_tab_load_None)
qed

lemma remove_absent:
  "i \<notin> id' ` set (loads st) \<Longrightarrow> remove_load st i = (st, switch_tab_load st)"
  using filter_absent [of i "loads st"] by (simp add: remove_load_def Let_def)

section \<open>Claims\<close>

subsection \<open>Usage classification\<close>

text \<open>
  C1, as the specification states it: in every ledger state with a capacity of 30 kW the
  classification follows the band rule. The code gives no classification when the
  aggregate is out of the range of a float. Adding a load of \<open>10^400\<close> W to the default
  loads, the digit 1 and 400 zeros typed as the watts, with no power selected and so a
  capacity of 30, gives a ledger whose percentage is above 100 and for which
  \<^verbatim>\<open>total_watts / 1000\<close> raises \<^verbatim>\<open>OverflowError\<close>: the load view shows no status.
\<close>

theorem C1_usage_counterexample:
  "capacity (run init_state [AddLoad ''Magnet'' (CHR ''1'' # replicate 400 CHR ''0'') ''1'']) = 30 \<and>
   loads (run init_state [AddLoad ''Magnet'' (CHR ''1'' # replicate 400 CHR ''0'') ''1'']) =
     DEFAULT_LOADS @ [\<lparr>id' = 4, name = ''Magnet'', watts = 10 ^ 400, quantity = 1\<rparr>] \<and>
   100 < exact_usage_percent
     (run init_state [AddLoad ''Magnet'' (CHR ''1'' # replicate 400 CHR ''0'') ''1'']) \<and>
   build_load_tab (run init_state [AddLoad ''Magnet'' (CHR ''1'' # replicate 400 CHR ''0'') ''1'']) =
     Inl OverflowError"
proof -
  have "100 < exact_usage_percent (init_state\<lparr>loads := DEFAULT_LOADS @
       [\<lparr>id' = 4, name = ''Magnet'', watts = 10 ^ 400, quantity = 1\<rparr>], load_id := 5\<rparr>)"
    by (rule magnet_percent) simp
  then show ?thesis
    unfolding magnet_400(1)
    using capacity_of_ledger loads_of_ledger magnet_400(4) by (intro conjI)
qed

text \<open>
  C1, amended. With a capacity of 30 kW the load summary, and with it a classification,
  exists exactly for the ledgers in which every row total, watts times quantity, has at
  most 4300 decimal digits and the aggregate is below \<open>1000 * (2^1024 - 2^970)\<close> W in
  magnitude, the least aggregate whose quotient by 1000 rounds out of binary64. A longer
  row total raises \<^verbatim>\<open>ValueError\<close> when its label is written, a larger aggregate raises
  \<^verbatim>\<open>OverflowError\<close> in the true division. Whenever the summary exists its status follows
  the band rule with inclusive upper boundaries: a percentage of at most 80 is SAFE, one
  above 80 and at most 100 is HIGH LOAD, and one above 100 is OVERLOADED, both for the
  exact percentage and for the float the code compares. An aggregate of 24000 W gives
  usage 80 and SAFE, 24001 W gives HIGH LOAD, exactly 30000 W gives usage 100 and
  HIGH LOAD, not OVERLOADED, and 30001 W gives OVERLOADED.
\<close>

theorem C1_usage_bands:
  assumes "capacity st = 30"
  shows
    "((\<exists>s. build_load_tab st = Inr s) \<longleftrightarrow>
        (\<forall>l \<in> set (loads st). \<bar>watts l * quantity l\<bar> < 10 ^ int_max_str_digits) \<and>
        \<bar>total_watts (loads st)\<bar> < 1000 * (2 ^ 1024 - 2 ^ 970)) \<and>
     ((\<exists>l \<in> set (loads st). 10 ^ int_max_str_digits \<le> \<bar>watts l * quantity l\<bar>) \<longrightarrow>
        build_load_tab st = Inl ValueError) \<and>
     ((\<forall>l \<in> set (loads st). \<bar>watts l * quantity l\<bar> < 10 ^ int_max_str_digits) \<and>
      1000 * (2 ^ 1024 - 2 ^ 970) \<le> \<bar>total_watts (loads st)\<bar> \<longrightarrow>
        build_load_tab st = Inl OverflowError) \<and>
     ((\<forall>l \<in> set (loads st). \<bar>watts l * quantity l\<bar> < 10 ^ int_max_str_digits) \<longrightarrow>
        (total_watts (loads st) = 24000 \<longrightarrow>
           (\<exists>s. build_load_tab st = Inr s \<and> ls_usage s = Finite 80 \<and> ls_status s = ''SAFE'')) \<and>
        (total_watts (loads st) = 24001 \<longrightarrow>
           (\<exists>s. build_load_tab st = Inr s \<and> ls_status s = ''HIGH LOAD'')) \<and>
        (total_watts (loads st) = 30000 \<longrightarrow>
           (\<exists>s. build_load_tab st = Inr s \<and> ls_usage s = Finite 100 \<and>
              ls_status s = ''HIGH LOAD'')) \<and>
        (total_watts (loads st) = 30001 \<longrightarrow>
           (\<exists>s. build_load_tab st = Inr s \<and> ls_status s = ''OVERLOADED''))) \<and>
     (\<forall>s. build_load_tab st = Inr s \<longrightarrow>
        (exact_usage_percent st \<le> 80 \<longrightarrow> ls_status s = ''SAFE'') \<and>
        (80 < exact_usage_percent st \<and> exact_usage_percent st \<le> 100 \<longrightarrow>
           ls_status s = ''HIGH LOAD'') \<and>
        (100 < exact_usage_percent st \<longrightarrow> ls_status s = ''OVERLOADED'') \<and>
        (\<not> float_gt (ls_usage s) 80 \<longrightarrow> ls_status s = ''SAFE'') \<and>
        (float_gt (ls_usage s) 80 \<and> \<not> float_gt (ls_usage s) 100 \<longrightarrow>
           ls_status s = ''HIGH LOAD'') \<and>
        (float_gt (ls_usage s) 100 \<longrightarrow> ls_status s = ''OVERLOADED''))"
proof -
  have cap: "\<bar>capacity st\<bar> < 10 ^ int_max_str_digits" using assms by (simp add: fits_small)
  have range: "(\<exists>s. build_load_tab st = Inr s) \<longleftrightarrow>
      (\<forall>l \<in> set (loads st). \<bar>watts l * quantity l\<bar> < 10 ^ int_max_str_digits) \<and>
      \<bar>total_watts (loads st)\<bar> < 1000 * (2 ^ 1024 - 2 ^ 970)"
    using build_load_tab_Inr_iff [of st] cap by blast
  have long: "build_load_tab st = Inl ValueError"
    if "\<exists>l \<in> set (loads st). 10 ^ int_max_str_digits \<le> \<bar>watts l * quantity l\<bar>"
    using that by (rule build_load_tab_long)
  have over: "build_load_tab st = Inl OverflowError"
    if "(\<forall>l \<in> set (loads st). \<bar>watts l * quantity l\<bar> < 10 ^ int_max_str_digits) \<and>
      1000 * (2 ^ 1024 - 2 ^ 970) \<le> \<bar>total_watts (loads st)\<bar>"
    using that by (intro switch_tab_load_overflow(1)) blast+
  have points:
    "(total_watts (loads st) = 24000 \<longrightarrow>
        (\<exists>s. build_load_tab st = Inr s \<and> ls_usage s = Finite 80 \<and> ls_status s = ''SAFE'')) \<and>
     (total_watts (loads st) = 24001 \<longrightarrow>
        (\<exists>s. build_load_tab st = Inr s \<and> ls_status s = ''HIGH LOAD'')) \<and>
     (total_watts (loads st) = 30000 \<longrightarrow>
        (\<exists>s. build_load_tab st = Inr s \<and> ls_usage s = Finite 100 \<and>
           ls_status s = ''HIGH LOAD'')) \<and>
     (total_watts (loads st) = 30001 \<longrightarrow>
        (\<exists>s. build_load_tab st = Inr s \<and> ls_status s = ''OVERLOADED''))"
    if fit: "\<forall>l \<in> set (loads st). \<bar>watts l * quantity l\<bar> < 10 ^ int_max_str_digits"
  proof (intro conjI impI)
    note b = build_load_tab_fits [OF fit]
    { assume "total_watts (loads st) = 24000"
      then show "\<exists>s. build_load_tab st = Inr s \<and> ls_usage s = Finite 80 \<and> ls_status s = ''SAFE''"
        unfolding b using point_cap30 [OF assms, of 24000] usage_24000 by simp }
    { assume "total_watts (loads st) = 24001"
      then show "\<exists>s. build_load_tab st = Inr s \<and> ls_status s = ''HIGH LOAD''"
        unfolding b using point_cap30 [OF assms, of 24001] by auto }
    { assume "total_watts (loads st) = 30000"
      then show "\<exists>s. build_load_tab st = Inr s \<and> ls_usage s = Finite 100 \<and>
          ls_status s = ''HIGH LOAD''"
        unfolding b using point_cap30 [OF assms, of 30000] usage_30000 by simp }
    { assume "total_watts (loads st) = 30001"
      then show "\<exists>s. build_load_tab st = Inr s \<and> ls_status s = ''OVERLOADED''"
        unfolding b using point_cap30 [OF assms, of 30001] by auto }
  qed
  have bands:
    "(exact_usage_percent st \<le> 80 \<longrightarrow> ls_status s = ''SAFE'') \<and>
     (80 < exact_usage_percent st \<and> exact_usage_percent st \<le> 100 \<longrightarrow>
        ls_status s = ''HIGH LOAD'') \<and>
     (100 < exact_usage_percent st \<longrightarrow> ls_status s = ''OVERLOADED'') \<and>
     (\<not> float_gt (ls_usage s) 80 \<longrightarrow> ls_status s = ''SAFE'') \<and>
     (float_gt (ls_usage s) 80 \<and> \<not> float_gt (ls_usage s) 100 \<longrightarrow>
        ls_status s = ''HIGH LOAD'') \<and>
     (float_gt (ls_usage s) 100 \<longrightarrow> ls_status s = ''OVERLOADED'')"
    if "build_load_tab st = Inr s" for s
  proof -
    have s: "load_tab_summary st = Inr s" using that by (rule build_load_tab_Inr)
    show ?thesis
      using bands_exact_cap30 [OF assms s] bands_float [OF usage_cap30(2) [OF assms s]]
      by blast
  qed
  show ?thesis using range long over points bands by blast
qed

theorem C1_usage_bands_witness:
  "(\<exists>s. build_load_tab (init_state\<lparr>loads := [\<lparr>id' = 1, name = ''Scanner'', watts = 24000, quantity = 1\<rparr>]\<rparr>) = Inr s \<and>
        ls_usage s = Finite 80 \<and> ls_status s = ''SAFE'') \<and>
   (\<exists>s. build_load_tab (init_state\<lparr>loads := [\<lparr>id' = 1, name = ''Scanner'', watts = 24001, quantity = 1\<rparr>]\<rparr>) = Inr s \<and>
        ls_status s = ''HIGH LOAD'') \<and>
   (\<exists>s. build_load_tab (init_state\<lparr>loads := [\<lparr>id' = 1, name = ''Scanner'', watts = 30000, quantity = 1\<rparr>]\<rparr>) = Inr s \<and>
        ls_usage s = Finite 100 \<and> ls_status s = ''HIGH LOAD'') \<and>
   (\<exists>s. build_load_tab (init_state\<lparr>loads := [\<lparr>id' = 1, name = ''Scanner'', watts = 30001, quantity = 1\<rparr>]\<rparr>) = Inr s \<and>
        ls_status s = ''OVERLOADED'') \<and>
   build_load_tab (init_state\<lparr>loads :=
       [\<lparr>id' = 1, name = ''Scanner'', watts = 10 ^ int_max_str_digits, quantity = 1\<rparr>]\<rparr>) =
     Inl ValueError \<and>
   build_load_tab (init_state\<lparr>loads := DEFAULT_LOADS @
       [\<lparr>id' = 4, name = ''Magnet'', watts = 10 ^ 400, quantity = 1\<rparr>], load_id := 5\<rparr>) =
     Inl OverflowError"
proof -
  have points:
    "(\<exists>s. build_load_tab (init_state\<lparr>loads := [\<lparr>id' = 1, name = ''Scanner'', watts = 24000, quantity = 1\<rparr>]\<rparr>) = Inr s \<and>
        ls_usage s = Finite 80 \<and> ls_status s = ''SAFE'') \<and>
     (\<exists>s. build_load_tab (init_state\<lparr>loads := [\<lparr>id' = 1, name = ''Scanner'', watts = 24001, quantity = 1\<rparr>]\<rparr>) = Inr s \<and>
        ls_status s = ''HIGH LOAD'') \<and>
     (\<exists>s. build_load_tab (init_state\<lparr>loads := [\<lparr>id' = 1, name = ''Scanner'', watts = 30000, quantity = 1\<rparr>]\<rparr>) = Inr s \<and>
        ls_usage s = Finite 100 \<and> ls_status s = ''HIGH LOAD'') \<and>
     (\<exists>s. build_load_tab (init_state\<lparr>loads := [\<lparr>id' = 1, name = ''Scanner'', watts = 30001, quantity = 1\<rparr>]\<rparr>) = Inr s \<and>
        ls_status s = ''OVERLOADED'')"
    using C1_usage_bands [of "init_state\<lparr>loads := [\<lparr>id' = 1, name = ''Scanner'', watts = 24000, quantity = 1\<rparr>]\<rparr>"]
      C1_usage_bands [of "init_state\<lparr>loads := [\<lparr>id' = 1, name = ''Scanner'', watts = 24001, quantity = 1\<rparr>]\<rparr>"]
      C1_usage_bands [of "init_state\<lparr>loads := [\<lparr>id' = 1, name = ''Scanner'', watts = 30000, quantity = 1\<rparr>]\<rparr>"]
      C1_usage_bands [of "init_state\<lparr>loads := [\<lparr>id' = 1, name = ''Scanner'', watts = 30001, quantity = 1\<rparr>]\<rparr>"]
    by (simp add: capacity_def init_state_def total_watts_def fits_small)
  have c: "capacity (init_state\<lparr>loads :=
       [\<lparr>id' = 1, name = ''Scanner'', watts = 10 ^ int_max_str_digits, quantity = 1\<rparr>]\<rparr>) = 30"
    by (simp add: capacity_def init_state_def)
  have "\<exists>l \<in> set (loads (init_state\<lparr>loads :=
       [\<lparr>id' = 1, name = ''Scanner'', watts = 10 ^ int_max_str_digits, quantity = 1\<rparr>]\<rparr>)).
       10 ^ int_max_str_digits \<le> \<bar>watts l * quantity l\<bar>"
    by simp
  then have long: "build_load_tab (init_state\<lparr>loads :=
       [\<lparr>id' = 1, name = ''Scanner'', watts = 10 ^ int_max_str_digits, quantity = 1\<rparr>]\<rparr>) =
     Inl ValueError"
    using C1_usage_bands [OF c] by blast
  have "build_load_tab (init_state\<lparr>loads := DEFAULT_LOADS @
       [\<lparr>id' = 4, name = ''Magnet'', watts = 10 ^ 400, quantity = 1\<rparr>], load_id := 5\<rparr>) =
     Inl OverflowError"
    using C1_usage_bands [OF capacity_of_ledger] magnet_400(2,3) by blast
  with points long show ?thesis by blast
qed

subsection \<open>Catalog\<close>

text \<open>
  C2. For each of the two phases and each of the five ratings 30, 32, 40, 50 and 60 the
  lookup returns exactly one specification; \<^const>\<open>lookup_specs\<close> is a function, so equal
  arguments give equal results. For every other rating the lookup returns \<^const>\<open>None\<close>,
  the not-found result of \<^verbatim>\<open>dict.get\<close>: no default and no interpolated specification.
  Both tables have exactly the five ratings as keys.
\<close>

theorem C2_catalog_lookup:
  assumes "phase = ''single'' \<or> phase = ''three''"
  shows
    "(rating \<in> set POWER_RATINGS \<longrightarrow>
        (\<exists>!spec. lookup_specs (Some phase) (Some rating) = Some spec)) \<and>
     (rating \<notin> set POWER_RATINGS \<longrightarrow> lookup_specs (Some phase) (Some rating) = None) \<and>
     dom SINGLE_PHASE_SPECS = set POWER_RATINGS \<and> dom THREE_PHASE_SPECS = set POWER_RATINGS"
  using assms
  by (auto simp: lookup_specs_def dict_get_def SINGLE_PHASE_SPECS_def THREE_PHASE_SPECS_def
      POWER_RATINGS_def split: if_splits)

theorem C2_catalog_lookup_witness:
  "(\<exists>!spec. lookup_specs (Some ''single'') (Some 30) = Some spec) \<and>
   (\<exists>!spec. lookup_specs (Some ''three'') (Some 60) = Some spec) \<and>
   lookup_specs (Some ''single'') (Some 33) = None \<and>
   lookup_specs (Some ''three'') (Some 45) = None"
  using C2_catalog_lookup [of "''single''" 30] C2_catalog_lookup [of "''three''" 60]
    C2_catalog_lookup [of "''single''" 33] C2_catalog_lookup [of "''three''" 45]
  by (simp add: POWER_RATINGS_def)

text \<open>
  C3. The three-phase 50 kW selection resolves to the specification with voltage
  208V/480V, amperage 139A @ 208V / 60A @ 480V, hot wire gauge
  1/0 AWG Copper (208V) / 4 AWG Copper (480V) and breaker size 175A (208V) / 80A (480V).
  The default loads add up to 15000 + 3000 + 2000 = 20000 W, and with the capacity of 50 kW
  the usage is 40 and the status SAFE.
\<close>

theorem C3_three_phase_50:
  "(\<exists>spec. lookup_specs (Some ''three'') (Some 50) = Some spec \<and>
      current_specs (run init_state [SelectPhase ''three'', SelectPower 50]) = Some spec \<and>
      voltage spec = ''208V/480V'' \<and>
      amperage spec = ''139A @ 208V / 60A @ 480V'' \<and>
      wire_gauge spec = ''1/0 AWG Copper (208V) / 4 AWG Copper (480V)'' \<and>
      breaker_size spec = ''175A (208V) / 80A (480V)'') \<and>
   total_watts DEFAULT_LOADS = 15000 + 3000 + 2000 \<and>
   build_load_tab (run init_state [SelectPhase ''three'', SelectPower 50]) =
     Inr \<lparr>ls_total_watts = 20000, ls_total_kw = 20, ls_capacity = 50, ls_usage = Finite 40,
          ls_status = ''SAFE''\<rparr>"
proof -
  let ?st = "run init_state [SelectPhase ''three'', SelectPower 50]"
  have spec: "\<exists>spec. lookup_specs (Some ''three'') (Some 50) = Some spec \<and>
      current_specs ?st = Some spec \<and>
      voltage spec = ''208V/480V'' \<and>
      amperage spec = ''139A @ 208V / 60A @ 480V'' \<and>
      wire_gauge spec = ''1/0 AWG Copper (208V) / 4 AWG Copper (480V)'' \<and>
      breaker_size spec = ''175A (208V) / 80A (480V)''"
    unfolding three_50_state
    by (simp add: lookup_specs_def dict_get_def THREE_PHASE_SPECS_def mkWiringSpecs_def)
  have tw: "total_watts DEFAULT_LOADS = 20000"
    by (simp add: total_watts_def DEFAULT_LOADS_def)
  have ld: "loads ?st = DEFAULT_LOADS" "capacity ?st = 50"
    unfolding three_50_state by (simp_all add: init_state_def capacity_def)
  have rows: "build_load_tab ?st = load_tab_summary ?st"
    by (rule build_load_tab_fits) (unfold ld(1), rule default_loads_fit)
  have "(2::int) ^ 15 \<le> 2 ^ 1023" by (rule power_increasing) simp_all
  then have small: "\<bar>20000::int\<bar> \<le> 2 ^ 1023" by simp
  have kw: "int_truediv 20000 1000 = Inr 20"
    using int_truediv_defined [OF small, of 1000] by (simp add: b64_20)
  have q: "int_truediv 20000 50000 = Inr (round_b64 (2 / 5))"
    using int_truediv_defined [OF small, of 50000] by simp
  have us: "float_mul (round_b64 (2 / 5)) 100 = Finite 40"
    using float_mul_finite [of "round_b64 (2 / 5)" 100] by (simp add: b64_40)
  have st: "usage_status (Finite 40) = ''SAFE''"
    by (simp add: usage_status_def float_gt_def)
  have "build_load_tab ?st =
     Inr \<lparr>ls_total_watts = 20000, ls_total_kw = 20, ls_capacity = 50, ls_usage = Finite 40,
          ls_status = ''SAFE''\<rparr>"
    unfolding rows by (simp add: load_tab_summary_def ld tw kw q us st Let_def fmt_int_fits fits_small)
  then show ?thesis using spec tw by simp
qed

subsection \<open>Load ledger\<close>

text \<open>
  C4, as the specification states it: adding fails when the wattage is negative or the
  quantity is below 1, and inputs are never coerced to a default. The code does neither:
  a wattage of -5 with a quantity of 0 is appended as entered, and three empty fields are
  appended as the load "New Load" with 0 W and quantity 1; in both cases the handler
  returns without an exception.
\<close>

theorem C4_add_validation_counterexample:
  "submit init_state ''Heater'' ''-5'' ''0'' =
     (init_state\<lparr>loads := DEFAULT_LOADS @
                   [\<lparr>id' = 4, name = ''Heater'', watts = - 5, quantity = 0\<rparr>],
                 load_id := 5\<rparr>, None) \<and>
   submit init_state [] [] [] =
     (init_state\<lparr>loads := DEFAULT_LOADS @
                   [\<lparr>id' = 4, name = ''New Load'', watts = 0, quantity = 1\<rparr>],
                 load_id := 5\<rparr>, None)"
proof -
  have "switch_tab_load (init_state\<lparr>loads := DEFAULT_LOADS @
      [\<lparr>id' = 4, name = ''Heater'', watts = - 5, quantity = 0\<rparr>], load_id := 5\<rparr>) = None"
    by (rule heater_state_shown) simp
  moreover have "switch_tab_load (init_state\<lparr>loads := DEFAULT_LOADS @
      [\<lparr>id' = 4, name = ''New Load'', watts = 0, quantity = 1\<rparr>], load_id := 5\<rparr>) = None"
    by (rule heater_state_shown) simp
  moreover have "loads init_state = DEFAULT_LOADS" "load_id init_state = 4"
    by (simp_all add: init_state_def)
  ultimately show ?thesis
    by (simp add: submit_def int_or_def py_int_neg5 py_int_0 Let_def)
qed

text \<open>
  C4, amended. Adding rejects exactly the inputs whose watts text or quantity text is not
  empty and is not accepted by \<^verbatim>\<open>int()\<close>, which refuses text that is not an integer
  literal and also a literal of more than 4300 digits; on rejection the state is
  unchanged, no load is appended and the id counter keeps its value, and no exception
  escapes. Otherwise the load is appended with the numbers as entered, also a negative
  wattage or a quantity below 1, and an empty watts, quantity or name field reads as 0, 1
  or "New Load". No \<^verbatim>\<open>ValueError\<close> ever escapes the handler.
\<close>

theorem C4_add_rejects_unparsable:
  "((watts_var \<noteq> [] \<and> py_int watts_var = None) \<or> (qty_var \<noteq> [] \<and> py_int qty_var = None)
      \<longrightarrow> submit st name_var watts_var qty_var = (st, None)) \<and>
   (\<forall>w q. int_or watts_var 0 = Some w \<and> int_or qty_var 1 = Some q \<longrightarrow>
      fst (submit st name_var watts_var qty_var) =
        st\<lparr>loads := loads st @
              [\<lparr>id' = load_id st, name = (if name_var = [] then ''New Load'' else name_var),
                watts = w, quantity = q\<rparr>],
           load_id := load_id st + 1\<rparr>) \<and>
   snd (submit st name_var watts_var qty_var) \<noteq> Some ValueError \<and>
   int_or [] 0 = Some 0 \<and> int_or [] 1 = Some 1 \<and>
   (watts_var \<noteq> [] \<longrightarrow> int_or watts_var 0 = py_int watts_var) \<and>
   (qty_var \<noteq> [] \<longrightarrow> int_or qty_var 1 = py_int qty_var) \<and>
   (int_max_str_digits < length (filter is_decimal watts_var) \<longrightarrow> py_int watts_var = None) \<and>
   (int_max_str_digits < length (filter is_decimal qty_var) \<longrightarrow> py_int qty_var = None)"
proof (intro conjI impI allI)
  assume "(watts_var \<noteq> [] \<and> py_int watts_var = None) \<or> (qty_var \<noteq> [] \<and> py_int qty_var = None)"
  then have "int_or watts_var 0 = None \<or> int_or qty_var 1 = None"
    by (auto simp: int_or_def)
  then show "submit st name_var watts_var qty_var = (st, None)" by (rule submit_rejected)
next
  fix w q assume "int_or watts_var 0 = Some w \<and> int_or qty_var 1 = Some q"
  then show "fst (submit st name_var watts_var qty_var) =
        st\<lparr>loads := loads st @
              [\<lparr>id' = load_id st, name = (if name_var = [] then ''New Load'' else name_var),
                watts = w, quantity = q\<rparr>],
           load_id := load_id st + 1\<rparr>"
    by (simp add: submit_cases)
next
  show "snd (submit st name_var watts_var qty_var) \<noteq> Some ValueError" by (rule snd_submit)
next
  assume "int_max_str_digits < length (filter is_decimal watts_var)"
  then show "py_int watts_var = None" by (rule py_int_too_long)
next
  assume "int_max_str_digits < length (filter is_decimal qty_var)"
  then show "py_int qty_var = None" by (rule py_int_too_long)
qed (simp_all add: int_or_def)

theorem C4_add_rejects_unparsable_witness:
  "submit init_state ''Pump'' ''abc'' ''1'' = (init_state, None) \<and>
   submit init_state ''Pump'' ''100'' ''1.5'' = (init_state, None) \<and>
   submit init_state ''Pump'' (replicate 4301 CHR ''7'') ''1'' = (init_state, None) \<and>
   fst (submit init_state ''Pump'' ''-5'' ''2'') =
     init_state\<lparr>loads := DEFAULT_LOADS @
                  [\<lparr>id' = 4, name = ''Pump'', watts = - 5, quantity = 2\<rparr>],
                load_id := 5\<rparr>"
proof -
  have d: "is_decimal CHR ''7''" by (simp add: is_decimal_def ord_def)
  have long: "int_max_str_digits < length (filter is_decimal (replicate 4301 CHR ''7''))"
    by (simp only: filter_replicate d if_True length_replicate int_max_str_digits_def)
  have ne: "replicate 4301 CHR ''7'' \<noteq> []" by simp
  have "py_int (replicate 4301 CHR ''7'') = None"
    using C4_add_rejects_unparsable [of "replicate 4301 CHR ''7''" "''1''" init_state "''Pump''"] long
    by blast
  then have "submit init_state ''Pump'' (replicate 4301 CHR ''7'') ''1'' = (init_state, None)"
    using C4_add_rejects_unparsable [of "replicate 4301 CHR ''7''" "''1''" init_state "''Pump''"] ne
    by blast
  moreover have "submit init_state ''Pump'' ''abc'' ''1'' = (init_state, None) \<and>
      submit init_state ''Pump'' ''100'' ''1.5'' = (init_state, None) \<and>
      fst (submit init_state ''Pump'' ''-5'' ''2'') =
        init_state\<lparr>loads := DEFAULT_LOADS @
                  [\<lparr>id' = 4, name = ''Pump'', watts = - 5, quantity = 2\<rparr>],
                load_id := 5\<rparr>"
    using C4_add_rejects_unparsable [of "''abc''" "''1''" init_state "''Pump''"]
      C4_add_rejects_unparsable [of "''100''" "''1.5''" init_state "''Pump''"]
      C4_add_rejects_unparsable [of "''-5''" "''2''" init_state "''Pump''"]
    by (simp add: py_int_abc py_int_1p5 py_int_neg5 py_int_2 init_state_def)
  ultimately show ?thesis by blast
qed

text \<open>
  C6, as the specification states it: removing an id that no load has does not raise. In
  the code the removal rebuilds the load view, and on the ledger that holds a load of
  \<open>10^400\<close> W this raises \<^verbatim>\<open>OverflowError\<close>, also when the id is absent and the ledger
  stays as it was.
\<close>

theorem C6_remove_absent_counterexample:
  "99 \<notin> id' ` set (loads (run init_state
      [AddLoad ''Magnet'' (CHR ''1'' # replicate 400 CHR ''0'') ''1''])) \<and>
   remove_load (run init_state [AddLoad ''Magnet'' (CHR ''1'' # replicate 400 CHR ''0'') ''1'']) 99 =
     (run init_state [AddLoad ''Magnet'' (CHR ''1'' # replicate 400 CHR ''0'') ''1''],
      Some OverflowError)"
proof -
  let ?big = "init_state\<lparr>loads := DEFAULT_LOADS @
                  [\<lparr>id' = 4, name = ''Magnet'', watts = 10 ^ 400, quantity = 1\<rparr>],
                load_id := 5\<rparr>"
  have "id' ` set (loads ?big) = {1, 2, 3, 4}"
    unfolding loads_of_ledger by (auto simp: DEFAULT_LOADS_def)
  then have a: "99 \<notin> id' ` set (loads ?big)" by simp
  then have "remove_load ?big 99 = (?big, switch_tab_load ?big)" by (rule remove_absent)
  then have "remove_load ?big 99 = (?big, Some OverflowError)" by (simp only: magnet_400(5))
  with a show ?thesis unfolding magnet_400(1) by (intro conjI)
qed

text \<open>
  C6, amended. In every state of a run, adding ("Test", 1000, 2) appends that load with
  the current counter as its id and raises the aggregate by exactly 2000; removing that id
  afterwards gives back the former sequence of loads and so the former aggregate;
  removing twice leaves the state that removing once leaves. Removing an id that no load
  has leaves the state unchanged, and it returns without an exception exactly when the
  load view can be rebuilt: when every row total has at most 4300 decimal digits, the
  aggregate is below \<open>1000 * (2^1024 - 2^970)\<close> W in magnitude and the capacity has at
  most 4300 digits. With a longer row total it raises \<^verbatim>\<open>ValueError\<close>, with a larger
  aggregate \<^verbatim>\<open>OverflowError\<close>, in both cases after the ledger was assigned.
\<close>

theorem C6_add_then_remove:
  "total_watts (loads (fst (submit (run init_state evs) ''Test'' ''1000'' ''2''))) =
     total_watts (loads (run init_state evs)) + 2000 \<and>
   loads (fst (submit (run init_state evs) ''Test'' ''1000'' ''2'')) =
     loads (run init_state evs) @
       [\<lparr>id' = load_id (run init_state evs), name = ''Test'', watts = 1000, quantity = 2\<rparr>] \<and>
   loads (fst (remove_load (fst (submit (run init_state evs) ''Test'' ''1000'' ''2''))
            (load_id (run init_state evs)))) = loads (run init_state evs) \<and>
   total_watts (loads (fst (remove_load (fst (submit (run init_state evs) ''Test'' ''1000'' ''2''))
            (load_id (run init_state evs))))) = total_watts (loads (run init_state evs)) \<and>
   (\<forall>i. fst (remove_load (fst (remove_load (run init_state evs) i)) i) =
      fst (remove_load (run init_state evs) i)) \<and>
   (\<forall>i. i \<notin> id' ` set (loads (run init_state evs)) \<longrightarrow>
      fst (remove_load (run init_state evs) i) = run init_state evs \<and>
      (snd (remove_load (run init_state evs) i) = None \<longleftrightarrow>
         (\<forall>l \<in> set (loads (run init_state evs)).
            \<bar>watts l * quantity l\<bar> < 10 ^ int_max_str_digits) \<and>
         \<bar>total_watts (loads (run init_state evs))\<bar> < 1000 * (2 ^ 1024 - 2 ^ 970) \<and>
         \<bar>capacity (run init_state evs)\<bar> < 10 ^ int_max_str_digits) \<and>
      ((\<exists>l \<in> set (loads (run init_state evs)).
          10 ^ int_max_str_digits \<le> \<bar>watts l * quantity l\<bar>) \<longrightarrow>
         snd (remove_load (run init_state evs) i) = Some ValueError) \<and>
      ((\<forall>l \<in> set (loads (run init_state evs)).
          \<bar>watts l * quantity l\<bar> < 10 ^ int_max_str_digits) \<and>
       1000 * (2 ^ 1024 - 2 ^ 970) \<le> \<bar>total_watts (loads (run init_state evs))\<bar> \<longrightarrow>
         snd (remove_load (run init_state evs) i) = Some OverflowError))"
proof -
  let ?st = "run init_state evs"
  have ok: "ledger_ok ?st" using ledger_ok_init by (rule ledger_ok_run)
  have sub: "fst (submit ?st ''Test'' ''1000'' ''2'') =
      ?st\<lparr>loads := loads ?st @
              [\<lparr>id' = load_id ?st, name = ''Test'', watts = 1000, quantity = 2\<rparr>],
           load_id := load_id ?st + 1\<rparr>"
    by (simp add: submit_cases int_or_def py_int_1000 py_int_2)
  have absent: "load_id ?st \<notin> id' ` set (loads ?st)"
    using ok by (auto simp: ledger_ok_def)
  have rem: "loads (fst (remove_load (fst (submit ?st ''Test'' ''1000'' ''2'')) (load_id ?st))) =
      loads ?st"
    unfolding sub using filter_absent [OF absent] by (simp add: fst_remove_load)
  have idem: "fst (remove_load (fst (remove_load ?st i)) i) = fst (remove_load ?st i)" for i
    by (simp add: fst_remove_load)
  have shown: "switch_tab_load ?st = None \<longleftrightarrow>
      (\<forall>l \<in> set (loads ?st). \<bar>watts l * quantity l\<bar> < 10 ^ int_max_str_digits) \<and>
      \<bar>total_watts (loads ?st)\<bar> < 1000 * (2 ^ 1024 - 2 ^ 970) \<and>
      \<bar>capacity ?st\<bar> < 10 ^ int_max_str_digits"
    unfolding switch_tab_load_None_iff by (rule build_load_tab_Inr_iff)
  have over: "switch_tab_load ?st = Some OverflowError"
    if "(\<forall>l \<in> set (loads ?st). \<bar>watts l * quantity l\<bar> < 10 ^ int_max_str_digits) \<and>
      1000 * (2 ^ 1024 - 2 ^ 970) \<le> \<bar>total_watts (loads ?st)\<bar>"
    using that by (intro switch_tab_load_overflow(2)) blast+
  have long: "switch_tab_load ?st = Some ValueError"
    if "\<exists>l \<in> set (loads ?st). 10 ^ int_max_str_digits \<le> \<bar>watts l * quantity l\<bar>"
    using that by (rule switch_tab_load_long)
  have noop: "fst (remove_load ?st i) = ?st \<and>
      (snd (remove_load ?st i) = None \<longleftrightarrow>
         (\<forall>l \<in> set (loads ?st). \<bar>watts l * quantity l\<bar> < 10 ^ int_max_str_digits) \<and>
         \<bar>total_watts (loads ?st)\<bar> < 1000 * (2 ^ 1024 - 2 ^ 970) \<and>
         \<bar>capacity ?st\<bar> < 10 ^ int_max_str_digits) \<and>
      ((\<exists>l \<in> set (loads ?st). 10 ^ int_max_str_digits \<le> \<bar>watts l * quantity l\<bar>) \<longrightarrow>
         snd (remove_load ?st i) = Some ValueError) \<and>
      ((\<forall>l \<in> set (loads ?st). \<bar>watts l * quantity l\<bar> < 10 ^ int_max_str_digits) \<and>
       1000 * (2 ^ 1024 - 2 ^ 970) \<le> \<bar>total_watts (loads ?st)\<bar> \<longrightarrow>
         snd (remove_load ?st i) = Some OverflowError)"
    if "i \<notin> id' ` set (loads ?st)" for i
  proof -
    have "remove_load ?st i = (?st, switch_tab_load ?st)" using that by (rule remove_absent)
    then have "fst (remove_load ?st i) = ?st" "snd (remove_load ?st i) = switch_tab_load ?st"
      by simp_all
    then show ?thesis using shown over long by (simp only:) blast
  qed
  have "total_watts (loads (fst (submit ?st ''Test'' ''1000'' ''2''))) = total_watts (loads ?st) + 2000"
    unfolding sub by (simp add: total_watts_def)
  moreover have "loads (fst (submit ?st ''Test'' ''1000'' ''2'')) =
     loads ?st @ [\<lparr>id' = load_id ?st, name = ''Test'', watts = 1000, quantity = 2\<rparr>]"
    unfolding sub by simp
  moreover have "total_watts (loads (fst (remove_load (fst (submit ?st ''Test'' ''1000'' ''2''))
            (load_id ?st)))) = total_watts (loads ?st)"
    by (simp only: rem)
  ultimately show ?thesis using rem idem noop by blast
qed

theorem C6_add_then_remove_witness:
  "total_watts (loads (fst (submit (run init_state [RemoveLoad 2]) ''Test'' ''1000'' ''2''))) = 19000 \<and>
   total_watts (loads (run init_state [RemoveLoad 2])) = 17000 \<and>
   99 \<notin> id' ` set (loads (run init_state [RemoveLoad 2])) \<and>
   remove_load (run init_state [RemoveLoad 2]) 99 = (run init_state [RemoveLoad 2], None)"
proof -
  let ?st = "run init_state [RemoveLoad 2]"
  have st: "?st = init_state\<lparr>loads :=
      [\<lparr>id' = 1, name = ''X-Ray Tube'', watts = 15000, quantity = 1\<rparr>,
       \<lparr>id' = 3, name = ''Room HVAC'', watts = 2000, quantity = 1\<rparr>]\<rparr>"
    by (simp add: run_def fst_remove_load init_state_def DEFAULT_LOADS_def)
  have tw: "total_watts (loads ?st) = 17000"
    unfolding st by (simp add: total_watts_def)
  have a: "99 \<notin> id' ` set (loads ?st)" unfolding st by simp
  have f: "\<forall>l \<in> set (loads ?st). \<bar>watts l * quantity l\<bar> < 10 ^ int_max_str_digits"
    unfolding st by (simp add: fits_small)
  have s: "\<bar>total_watts (loads ?st)\<bar> < 1000 * (2 ^ 1024 - 2 ^ 970)" unfolding tw by simp
  have c: "\<bar>capacity ?st\<bar> < 10 ^ int_max_str_digits"
    unfolding st by (simp add: capacity_def init_state_def fits_small)
  have "fst (remove_load ?st 99) = ?st \<and> snd (remove_load ?st 99) = None"
    using C6_add_then_remove [of "[RemoveLoad 2]"] a f s c by blast
  then have "remove_load ?st 99 = (?st, None)" by (simp add: prod_eq_iff)
  moreover have "total_watts (loads (fst (submit ?st ''Test'' ''1000'' ''2''))) =
      total_watts (loads ?st) + 2000"
    using C6_add_then_remove [of "[RemoveLoad 2]"] by blast
  then have "total_watts (loads (fst (submit ?st ''Test'' ''1000'' ''2''))) = 19000"
    unfolding tw by simp
  ultimately show ?thesis using tw a by blast
qed

text \<open>
  C7. Along every run from the initial state with its three default loads, the counter is
  4 plus the number of accepted additions so far, so it never decreases; the ids in the
  ledger are pairwise distinct and positive; every id the ledger holds at some moment is
  below the counter at every later moment, so no id is given twice, also after removals;
  an accepted addition appends one load at the end, with the counter as its id, an id no
  load in the ledger has, and advances the counter by one; a rejected one changes nothing.
\<close>

theorem C7_monotonic_ids:
  "load_id (run init_state evs) = 4 + int (length (filter accepted evs)) \<and>
   distinct (map id' (loads (run init_state evs))) \<and>
   (\<forall>l \<in> set (loads (run init_state evs)).
      0 < id' l \<and> id' l < load_id (run init_state (evs @ evs'))) \<and>
   (accepted (AddLoad n w q) \<longrightarrow>
      (\<exists>l. loads (run init_state (evs @ [AddLoad n w q])) = loads (run init_state evs) @ [l] \<and>
           id' l = load_id (run init_state evs) \<and> 0 < id' l \<and>
           id' l \<notin> id' ` set (loads (run init_state evs))) \<and>
      load_id (run init_state (evs @ [AddLoad n w q])) = load_id (run init_state evs) + 1) \<and>
   (\<not> accepted (AddLoad n w q) \<longrightarrow>
      run init_state (evs @ [AddLoad n w q]) = run init_state evs)"
proof -
  let ?st = "run init_state evs"
  have ok: "ledger_ok ?st" using ledger_ok_init by (rule ledger_ok_run)
  have c: "load_id ?st = 4 + int (length (filter accepted evs))"
    by (simp add: load_id_run init_state_def)
  have d: "distinct (map id' (loads ?st))" using ok by (simp add: ledger_ok_def)
  have b: "0 < id' l \<and> id' l < load_id (run init_state (evs @ evs'))"
    if "l \<in> set (loads ?st)" for l
  proof -
    have "0 < id' l \<and> id' l < load_id ?st" using ok that by (simp add: ledger_ok_def)
    then show ?thesis using load_id_mono [of init_state evs evs'] by linarith
  qed
  have fresh: "load_id ?st \<notin> id' ` set (loads ?st)" "0 < load_id ?st"
    using ok by (auto simp: ledger_ok_def)
  have a: "(\<exists>l. loads (run init_state (evs @ [AddLoad n w q])) = loads ?st @ [l] \<and>
           id' l = load_id ?st \<and> 0 < id' l \<and> id' l \<notin> id' ` set (loads ?st)) \<and>
      load_id (run init_state (evs @ [AddLoad n w q])) = load_id ?st + 1"
    if "accepted (AddLoad n w q)"
    using that fresh by (simp add: run_snoc submit_cases accepted_def)
  have r: "run init_state (evs @ [AddLoad n w q]) = ?st" if "\<not> accepted (AddLoad n w q)"
    using that by (simp add: run_snoc submit_cases accepted_def)
  show ?thesis using c d b a r by blast
qed

theorem C7_monotonic_ids_witness:
  "map id' (loads (run init_state [AddLoad ''A'' ''10'' ''1'', RemoveLoad 4])) = [1, 2, 3] \<and>
   map id' (loads (run init_state
      ([AddLoad ''A'' ''10'' ''1'', RemoveLoad 4] @ [AddLoad ''B'' ''10'' ''1'']))) = [1, 2, 3, 5] \<and>
   run init_state ([AddLoad ''A'' ''10'' ''1'', RemoveLoad 4] @ [AddLoad ''B'' ''x'' ''1'']) =
     run init_state [AddLoad ''A'' ''10'' ''1'', RemoveLoad 4]"
  using C7_monotonic_ids [of "[AddLoad ''A'' ''10'' ''1'', RemoveLoad 4]" "[]" "''B''" "''10''" "''1''"]
    C7_monotonic_ids [of "[AddLoad ''A'' ''10'' ''1'', RemoveLoad 4]" "[]" "''B''" "''x''" "''1''"]
  by (simp add: run_def submit_cases fst_remove_load int_or_def py_int_10 py_int_1 py_int_x
      accepted_def init_state_def DEFAULT_LOADS_def)

subsection \<open>Report assembly\<close>

text \<open>
  C5, as the specification states it: a project name of white space only is replaced by
  the placeholder. The code replaces the empty name only; a name of two spaces is kept.
\<close>

theorem C5_project_name_counterexample:
  "d_project_name
     (gather_data (init_state\<lparr>info := (info init_state)\<lparr>project_name := ''  ''\<rparr>\<rparr>) sample_env
        (mkWiringSpecs [] [] [] [] [] [] [] [] [])) = ''  '' \<and>
   ''  '' \<noteq> ''Untitled Project''"
  by (simp add: gather_data_def init_state_def)

text \<open>
  C5, amended. If the project name is the empty string, the assembled data carry the
  placeholder "Untitled Project"; every other name, also one of white space only, is
  carried verbatim, and the saved record has the same name. Saving does not change the
  project information held in the application state.
\<close>

theorem C5_project_name_placeholder:
  "(project_name (info st) = [] \<longrightarrow>
      d_project_name (gather_data st env specs) = ''Untitled Project'') \<and>
   (project_name (info st) \<noteq> [] \<longrightarrow>
      d_project_name (gather_data st env specs) = project_name (info st)) \<and>
   (\<forall>pdf_path. sr_project_name (make_report (gather_data st env specs) env pdf_path) =
      d_project_name (gather_data st env specs)) \<and>
   info (save_report st env) = info st"
  by (simp add: gather_data_def make_report_def save_report_def Let_def split: option.splits)

theorem C5_project_name_placeholder_witness:
  "d_project_name (gather_data init_state sample_env (mkWiringSpecs [] [] [] [] [] [] [] [] []))
     = ''Untitled Project'' \<and>
   d_project_name
     (gather_data (init_state\<lparr>info := (info init_state)\<lparr>project_name := ''Clinic A''\<rparr>\<rparr>)
        sample_env (mkWiringSpecs [] [] [] [] [] [] [] [] [])) = ''Clinic A''"
  using C5_project_name_placeholder [of init_state sample_env
      "mkWiringSpecs [] [] [] [] [] [] [] [] []"]
    C5_project_name_placeholder
      [of "init_state\<lparr>info := (info init_state)\<lparr>project_name := ''Clinic A''\<rparr>\<rparr>" sample_env
        "mkWiringSpecs [] [] [] [] [] [] [] [] []"]
  by (simp add: init_state_def)

subsection \<open>Saving\<close>

text \<open>
  C8. When the renderer returns failure, the save flow returns with the state as it was:
  nothing is written to the record store. Along every run from the initial state, the
  artifact path of every stored record is one for which the renderer returned success in
  that run.
\<close>

theorem C8_failed_render_not_persisted:
  "(current_specs st = Some specs \<and>
      \<not> pdf_generate env (pdf_path_of st env specs) (gather_data st env specs) \<longrightarrow>
        save_report st env = st \<and> db (save_report st env) = db st) \<and>
   (current_specs st = None \<longrightarrow> save_report st env = st) \<and>
   (\<forall>r \<in> set (db (run init_state evs)). sr_pdf_path r \<in> set (rendered init_state evs))"
proof -
  have "sr_pdf_path ` set (db (run init_state evs)) \<subseteq>
      sr_pdf_path ` set (db init_state) \<union> set (rendered init_state evs)"
    by (rule rendered_paths)
  then have "\<forall>r \<in> set (db (run init_state evs)). sr_pdf_path r \<in> set (rendered init_state evs)"
    by (auto simp: init_state_def)
  then show ?thesis by (simp add: save_report_cases)
qed

theorem C8_failed_render_not_persisted_witness:
  "current_specs (run init_state [SelectPhase ''single'', SelectPower 30]) \<noteq> None \<and>
   save_report (run init_state [SelectPhase ''single'', SelectPower 30])
     (sample_env\<lparr>pdf_generate := render_fails\<rparr>) =
     run init_state [SelectPhase ''single'', SelectPower 30] \<and>
   db (run init_state [SelectPhase ''single'', SelectPower 30,
         SaveReport (sample_env\<lparr>pdf_generate := render_fails\<rparr>)]) = [] \<and>
   db (run init_state [SelectPhase ''single'', SelectPower 30, SaveReport sample_env]) \<noteq> [] \<and>
   sr_pdf_path ` set (db (run init_state [SelectPhase ''single'', SelectPower 30, SaveReport sample_env]))
     \<subseteq> set (rendered init_state [SelectPhase ''single'', SelectPower 30, SaveReport sample_env])"
proof -
  let ?st = "run init_state [SelectPhase ''single'', SelectPower 30]"
  let ?bad = "sample_env\<lparr>pdf_generate := render_fails\<rparr>"
  obtain specs where specs: "current_specs ?st = Some specs"
    using single_30_specs by (auto simp: single_30_state)
  have fails: "\<not> pdf_generate ?bad (pdf_path_of ?st ?bad specs) (gather_data ?st ?bad specs)"
    by (simp add: render_fails_def)
  have 1: "save_report ?st ?bad = ?st"
    using C8_failed_render_not_persisted [of ?st specs ?bad "[]"] specs fails by blast
  have snoc: "run init_state [SelectPhase ''single'', SelectPower 30, SaveReport e] =
      save_report ?st e" for e
    using run_snoc [of init_state "[SelectPhase ''single'', SelectPower 30]" "SaveReport e"]
    by simp
  have 2: "db (run init_state [SelectPhase ''single'', SelectPower 30, SaveReport ?bad]) = []"
    unfolding snoc 1 by (rule single_30_db)
  have 3: "db (run init_state [SelectPhase ''single'', SelectPower 30, SaveReport sample_env]) \<noteq> []"
    unfolding snoc using specs single_30_db
    by (simp add: save_report_cases sample_env_def render_succeeds_def db_save_report_def)
  show ?thesis
    using specs 1 2 3
      C8_failed_render_not_persisted
        [of ?st specs ?bad "[SelectPhase ''single'', SelectPower 30, SaveReport sample_env]"]
    by blast
qed

text \<open>
  C9, as the specification states it: the name component is what remains of the project
  name after keeping the allowed characters, truncating to 40 and substituting spaces.
  The code also strips the spaces at both ends before it truncates: for the project name
  " a" the component is "a", not "_a", and the file is a_single_30kW_20240305_141500.pdf.
\<close>

theorem C9_filename_counterexample:
  "safe_name '' a'' = ''a'' \<and> spec_safe_name '' a'' = ''_a'' \<and>
   report_filename
     (gather_data
        (run init_state
           [SelectPhase ''single'', SelectPower 30,
            SetProjectInfo ((info init_state)\<lparr>project_name := '' a''\<rparr>)])
        sample_env (mkWiringSpecs [] [] [] [] [] [] [] [] []))
     (now_stamp sample_env) = ''a_single_30kW_20240305_141500.pdf''"
  by code_simp

text \<open>
  C9, amended. The file name is the name component, the phase type, the power rating
  followed by kW, and the time stamp, joined by underscores, with the extension pdf. The
  name component keeps of the project name only the characters that are alphanumeric,
  space, hyphen or underscore, drops the spaces at both ends of what is kept, truncates
  to at most 40 characters and only then substitutes underscores for spaces; it has at
  most 40 characters, each alphanumeric, a hyphen or an underscore. Where what is kept
  neither starts nor ends with a space, it is what the three steps of the specification
  give.
\<close>

theorem C9_filename_form:
  "report_filename data timestamp =
     safe_name (d_project_name data) @ ''_'' @ fmt_phase (d_phase_type data) @ ''_'' @
     fmt_power (d_power_rating data) @ ''kW_'' @ timestamp @ ''.pdf'' \<and>
   safe_name pname =
     replace_spaces (take 40 (strip_with (\<lambda>c. c = CHR '' '') (filter keep_char pname))) \<and>
   length (safe_name pname) \<le> 40 \<and>
   (\<forall>c \<in> set (safe_name pname). isalnum c \<or> c = CHR ''-'' \<or> c = CHR ''_'') \<and>
   (filter keep_char pname = [] \<or>
      (hd (filter keep_char pname) \<noteq> CHR '' '' \<and> last (filter keep_char pname) \<noteq> CHR '' '')
      \<longrightarrow> safe_name pname = spec_safe_name pname)"
proof (intro conjI ballI impI)
  show "report_filename data timestamp =
     safe_name (d_project_name data) @ ''_'' @ fmt_phase (d_phase_type data) @ ''_'' @
     fmt_power (d_power_rating data) @ ''kW_'' @ timestamp @ ''.pdf''"
    by (simp add: report_filename_def)
  show 1: "safe_name pname =
      replace_spaces (take 40 (strip_with (\<lambda>c. c = CHR '' '') (filter keep_char pname)))"
    by (simp add: safe_name_def strip_filtered)
  show "length (safe_name pname) \<le> 40" by (rule safe_name_length)
  show "isalnum c \<or> c = CHR ''-'' \<or> c = CHR ''_''" if "c \<in> set (safe_name pname)" for c
    using that by (rule safe_name_chars)
  show "safe_name pname = spec_safe_name pname"
    if "filter keep_char pname = [] \<or>
      (hd (filter keep_char pname) \<noteq> CHR '' '' \<and> last (filter keep_char pname) \<noteq> CHR '' '')"
    unfolding 1 spec_safe_name_def
    using strip_with_id [of "filter keep_char pname" "\<lambda>c. c = CHR '' ''"] that by simp
qed

theorem C9_filename_form_witness:
  "report_filename
     (gather_data
        (run init_state
           [SelectPhase ''three'', SelectPower 50,
            SetProjectInfo ((info init_state)\<lparr>project_name := ''CT room #2''\<rparr>)])
        sample_env (mkWiringSpecs [] [] [] [] [] [] [] [] []))
     (now_stamp sample_env) = ''CT_room_2_three_50kW_20240305_141500.pdf'' \<and>
   safe_name ''CT room #2'' = spec_safe_name ''CT room #2'' \<and>
   length (safe_name ''CT room #2'') \<le> 40"
  using C9_filename_form [of _ _ "''CT room #2''"] ct_room_ends ct_room_filename
  by blast

text \<open>
  C10. Every record in the store of a run that starts on the empty store has the status
  "completed", never "draft": the save flow is the only writer and it writes "completed"
  in all fifteen columns' insert, so the default of the schema is never used. The same
  holds for every record the reports listing returns.
\<close>

theorem C10_saved_status_completed:
  "(\<forall>r \<in> set (db (run init_state evs)). sr_status r = ''completed'' \<and> sr_status r \<noteq> ''draft'') \<and>
   (\<forall>r \<in> set (db_get_reports (db (run init_state evs)) err limit).
      sr_status r = ''completed'' \<and> sr_status r \<noteq> ''draft'') \<and>
   (\<forall>data env pdf_path. sr_status (make_report data env pdf_path) = ''completed'')"
proof -
  have "\<forall>r \<in> set (db init_state). sr_status r = ''completed''" by (simp add: init_state_def)
  then have rows: "\<forall>r \<in> set (db (run init_state evs)). sr_status r = ''completed''"
    by (rule status_rows)
  moreover have "set (db_get_reports (db (run init_state evs)) err limit)
      \<subseteq> set (db (run init_state evs))"
    by (rule set_db_get_reports)
  ultimately show ?thesis by (auto simp: make_report_def)
qed

theorem C10_saved_status_completed_witness:
  "db (run init_state [SelectPhase ''single'', SelectPower 30, SaveReport sample_env]) \<noteq> [] \<and>
   map sr_status
     (db (run init_state [SelectPhase ''single'', SelectPower 30, SaveReport sample_env])) =
     [''completed''] \<and>
   map sr_status
     (db_get_reports
        (db (run init_state [SelectPhase ''single'', SelectPower 30, SaveReport sample_env]))
        False 20) = [''completed'']"
proof -
  let ?st = "run init_state [SelectPhase ''single'', SelectPower 30]"
  obtain specs where specs: "current_specs ?st = Some specs"
    using single_30_specs by (auto simp: single_30_state)
  have snoc: "run init_state [SelectPhase ''single'', SelectPower 30, SaveReport sample_env] =
      save_report ?st sample_env"
    using run_snoc [of init_state "[SelectPhase ''single'', SelectPower 30]" "SaveReport sample_env"]
    by simp
  have "db ?st = []" by (rule single_30_db)
  then have d: "db (save_report ?st sample_env) =
      [make_report (gather_data ?st sample_env specs) sample_env (pdf_path_of ?st sample_env specs)]"
    using specs
    by (simp add: save_report_cases sample_env_def render_succeeds_def db_save_report_def)
  show ?thesis
    using C10_saved_status_completed
      [of "[SelectPhase ''single'', SelectPower 30, SaveReport sample_env]" False 20]
    unfolding snoc d by (simp add: db_get_reports_def)
qed

end
